theory Spec2Isabelle
  imports Complex_Main "HOL-Library.Word"
begin

section \<open>Data model of had.h\<close>

text \<open>
  \<^verbatim>\<open>typedef double Real; typedef unsigned int VertexId;\<close>
  \<open>Real\<close> is modelled by the mathematical reals: rounding, NaN and infinities are not
  part of this development. \<open>VertexId\<close> is a 32-bit unsigned integer, so every conversion
  from \<open>vertices.size()\<close> truncates and every subtraction wraps.
\<close>

type_synonym Real = real
type_synonym VertexId = "32 word"

datatype error = OutOfBounds

text \<open>Sequencing of fallible steps: the first failure ends the computation.\<close>

definition bindE :: "error + 'a \<Rightarrow> ('a \<Rightarrow> error + 'b) \<Rightarrow> error + 'b" where
  "bindE m f = (case m of Inl e \<Rightarrow> Inl e | Inr x \<Rightarrow> f x)"

text \<open>\<^verbatim>\<open>struct AReal { Real val; VertexId varId; }\<close>\<close>

record AReal =
  val :: Real
  varId :: VertexId

text \<open>
  \<^verbatim>\<open>struct ADEdge { VertexId to; Real w; }\<close>. The weight field is called \<open>ew\<close> here,
  since the vertex record has a field \<open>w\<close> of its own.
\<close>

record ADEdge =
  to :: VertexId
  ew :: Real

definition mk_ADEdge :: "VertexId \<Rightarrow> Real \<Rightarrow> ADEdge" where
  "mk_ADEdge t x = \<lparr>to = t, ew = x\<rparr>"

text \<open>
  \<^verbatim>\<open>struct ADVertex { ADEdge e1, e2; Real w; Real soW; }\<close>; the constructor
  \<^verbatim>\<open>ADVertex(newId)\<close> sets both edges to \<^verbatim>\<open>ADEdge(newId)\<close> (weight 0) and both weights to 0.
\<close>

record ADVertex =
  e1 :: ADEdge
  e2 :: ADEdge
  w :: Real
  soW :: Real

definition mk_ADVertex :: "VertexId \<Rightarrow> ADVertex" where
  "mk_ADVertex newId = \<lparr>e1 = mk_ADEdge newId 0, e2 = mk_ADEdge newId 0, w = 0, soW = 0\<rparr>"

subsection \<open>The sparse accumulator\<close>

text \<open>
  \<^verbatim>\<open>Eigen::SparseMatrix<Real>\<close> is a type of the Eigen library, which had.h includes; its
  operations are modelled here from Eigen's documentation. The model keeps what the header
  relies on: the dimensions and the finite set of explicitly stored coefficients (a stored
  coefficient may hold the value 0). The default storage order is column-major.
\<close>

record SparseMatrix =
  rows :: nat
  cols :: nat
  entries :: "nat \<times> nat \<rightharpoonup> Real"

text \<open>A default-constructed matrix is 0 x 0 and stores nothing.\<close>

definition empty_matrix :: SparseMatrix where
  "empty_matrix = \<lparr>rows = 0, cols = 0, entries = Map.empty\<rparr>"

text \<open>The value of a coefficient: the stored one, or 0 where nothing is stored.\<close>

definition coeff :: "SparseMatrix \<Rightarrow> nat \<Rightarrow> nat \<Rightarrow> Real" where
  "coeff m i j = (case entries m (i, j) of None \<Rightarrow> 0 | Some x \<Rightarrow> x)"

text \<open>
  \<^verbatim>\<open>coeffRef(row, col)\<close> returns a reference to the coefficient; when none is stored there it
  first inserts one with value 0. Indices outside the dimensions violate Eigen's assertion.
  The model returns the matrix in which the slot exists; the caller reads or writes the
  slot \<open>(i, j)\<close> of that matrix.
\<close>

definition coeffRef :: "SparseMatrix \<Rightarrow> nat \<Rightarrow> nat \<Rightarrow> error + SparseMatrix" where
  "coeffRef m i j =
     (if i < rows m \<and> j < cols m then
        (case entries m (i, j) of
           None \<Rightarrow> Inr (m\<lparr>entries := (entries m)((i, j) \<mapsto> 0)\<rparr>)
         | Some x \<Rightarrow> Inr m)
      else Inl OutOfBounds)"

text \<open>
  \<^verbatim>\<open>resize(rows, cols)\<close>: Eigen documents it as "resizes the matrix to a rows x cols matrix
  and initializes it to zero" (the variant that keeps the coefficients is
  \<^verbatim>\<open>conservativeResize\<close>, which had.h does not call). \<^verbatim>\<open>setZero()\<close> removes all stored
  coefficients and keeps the dimensions.
\<close>

definition resize :: "SparseMatrix \<Rightarrow> nat \<Rightarrow> nat \<Rightarrow> SparseMatrix" where
  "resize m r c = \<lparr>rows = r, cols = c, entries = Map.empty\<rparr>"

definition setZero :: "SparseMatrix \<Rightarrow> SparseMatrix" where
  "setZero m = m\<lparr>entries := Map.empty\<rparr>"

text \<open>
  \<^verbatim>\<open>InnerIterator it(mat, outer)\<close> on a column-major matrix walks the stored coefficients
  of column \<open>outer\<close> by increasing row; \<^verbatim>\<open>it.index()\<close> is the row and \<^verbatim>\<open>it.value()\<close> the
  coefficient. The model lists these pairs; the loop body converts the row to \<open>VertexId\<close>.
\<close>

definition InnerIterator :: "SparseMatrix \<Rightarrow> nat \<Rightarrow> error + (nat \<times> Real) list" where
  "InnerIterator m outer =
     (if outer < cols m then
        Inr (List.map_filter (\<lambda>r. map_option (Pair r) (entries m (r, outer))) [0..<rows m])
      else Inl OutOfBounds)"

subsection \<open>The tape\<close>

text \<open>\<^verbatim>\<open>struct ADGraph { std::vector<ADVertex> vertices; Eigen::SparseMatrix<Real> soEdges; }\<close>
  The thread-local pointer \<^verbatim>\<open>g_ADGraph\<close> becomes an explicit state argument.\<close>

record ADGraph =
  vertices :: "ADVertex list"
  soEdges :: SparseMatrix

definition new_ADGraph :: ADGraph where
  "new_ADGraph = \<lparr>vertices = [], soEdges = empty_matrix\<rparr>"

definition Clear :: "ADGraph \<Rightarrow> ADGraph" where
  "Clear g = g\<lparr>vertices := [], soEdges := setZero (soEdges g)\<rparr>"

text \<open>\<^verbatim>\<open>NewAReal\<close>: the new id is \<^verbatim>\<open>vertices.size()\<close> converted to \<open>VertexId\<close>.\<close>

definition NewAReal :: "Real \<Rightarrow> ADGraph \<Rightarrow> AReal \<times> ADGraph" where
  "NewAReal x g =
     (let newId = (of_nat (length (vertices g)) :: VertexId)
      in (\<lparr>val = x, varId = newId\<rparr>, g\<lparr>vertices := vertices g @ [mk_ADVertex newId]\<rparr>))"

text \<open>\<^verbatim>\<open>AddEdge\<close>, one parent and two parents; \<^verbatim>\<open>vertices[c.varId]\<close> is an unchecked index.\<close>

definition AddEdge1 :: "AReal \<Rightarrow> AReal \<Rightarrow> Real \<Rightarrow> Real \<Rightarrow> ADGraph \<Rightarrow> error + ADGraph" where
  "AddEdge1 c p x s g =
     (let i = unat (varId c) in
      if i < length (vertices g) then
        Inr (g\<lparr>vertices := (vertices g)[i := (vertices g ! i)\<lparr>e1 := mk_ADEdge (varId p) x, soW := s\<rparr>]\<rparr>)
      else Inl OutOfBounds)"

definition AddEdge2 ::
  "AReal \<Rightarrow> AReal \<Rightarrow> AReal \<Rightarrow> Real \<Rightarrow> Real \<Rightarrow> Real \<Rightarrow> ADGraph \<Rightarrow> error + ADGraph" where
  "AddEdge2 c p1 p2 x1 x2 s g =
     (let i = unat (varId c) in
      if i < length (vertices g) then
        Inr (g\<lparr>vertices := (vertices g)[i := (vertices g ! i)
               \<lparr>e1 := mk_ADEdge (varId p1) x1, e2 := mk_ADEdge (varId p2) x2, soW := s\<rparr>]\<rparr>)
      else Inl OutOfBounds)"

text \<open>\<^verbatim>\<open>AddSoEdge(i, j, w)\<close>: \<^verbatim>\<open>soEdges.coeffRef(min(i, j), max(i, j)) += w\<close>.\<close>

definition AddSoEdge :: "VertexId \<Rightarrow> VertexId \<Rightarrow> Real \<Rightarrow> ADGraph \<Rightarrow> error + ADGraph" where
  "AddSoEdge i j x g =
     (let r = unat (min i j); c = unat (max i j) in
      case coeffRef (soEdges g) r c of
        Inl e \<Rightarrow> Inl e
      | Inr m \<Rightarrow> Inr (g\<lparr>soEdges := m\<lparr>entries := (entries m)((r, c) \<mapsto> coeff m r c + x)\<rparr>\<rparr>))"


section \<open>Recording front end\<close>

text \<open>
  Every operator creates the result vertex with \<^verbatim>\<open>NewAReal\<close> and then attaches its edges
  with \<^verbatim>\<open>AddEdge\<close>. The functions of \<^verbatim>\<open><cmath>\<close> are taken to be the real functions of the
  same name (\<^verbatim>\<open>std::log\<close> as \<open>ln\<close>; \<^verbatim>\<open>std::pow\<close> as \<open>std_pow\<close> below); they agree where
  the C++ function is defined and finite, up to rounding.
\<close>

definition operator_add :: "AReal \<Rightarrow> AReal \<Rightarrow> ADGraph \<Rightarrow> error + (AReal \<times> ADGraph)" where
  "operator_add l r g =
     (let (ret, g1) = NewAReal (val l + val r) g in
      bindE (AddEdge2 ret l r 1 1 0 g1) (\<lambda>g2. Inr (ret, g2)))"

definition operator_add_R :: "AReal \<Rightarrow> Real \<Rightarrow> ADGraph \<Rightarrow> error + (AReal \<times> ADGraph)" where
  "operator_add_R l r g =
     (let (ret, g1) = NewAReal (val l + r) g in
      bindE (AddEdge1 ret l 1 0 g1) (\<lambda>g2. Inr (ret, g2)))"

definition operator_R_add :: "Real \<Rightarrow> AReal \<Rightarrow> ADGraph \<Rightarrow> error + (AReal \<times> ADGraph)" where
  "operator_R_add l r g = operator_add_R r l g"

definition operator_sub :: "AReal \<Rightarrow> AReal \<Rightarrow> ADGraph \<Rightarrow> error + (AReal \<times> ADGraph)" where
  "operator_sub l r g =
     (let (ret, g1) = NewAReal (val l - val r) g in
      bindE (AddEdge2 ret l r 1 (- 1) 0 g1) (\<lambda>g2. Inr (ret, g2)))"

definition operator_sub_R :: "AReal \<Rightarrow> Real \<Rightarrow> ADGraph \<Rightarrow> error + (AReal \<times> ADGraph)" where
  "operator_sub_R l r g =
     (let (ret, g1) = NewAReal (val l - r) g in
      bindE (AddEdge1 ret l 1 0 g1) (\<lambda>g2. Inr (ret, g2)))"

definition operator_R_sub :: "Real \<Rightarrow> AReal \<Rightarrow> ADGraph \<Rightarrow> error + (AReal \<times> ADGraph)" where
  "operator_R_sub l r g =
     (let (ret, g1) = NewAReal (l - val r) g in
      bindE (AddEdge1 ret r (- 1) 0 g1) (\<lambda>g2. Inr (ret, g2)))"

definition operator_mul :: "AReal \<Rightarrow> AReal \<Rightarrow> ADGraph \<Rightarrow> error + (AReal \<times> ADGraph)" where
  "operator_mul l r g =
     (let (ret, g1) = NewAReal (val l * val r) g in
      bindE (AddEdge2 ret l r (val r) (val l) 1 g1) (\<lambda>g2. Inr (ret, g2)))"

definition operator_mul_R :: "AReal \<Rightarrow> Real \<Rightarrow> ADGraph \<Rightarrow> error + (AReal \<times> ADGraph)" where
  "operator_mul_R l r g =
     (let (ret, g1) = NewAReal (val l * r) g in
      bindE (AddEdge1 ret l r 0 g1) (\<lambda>g2. Inr (ret, g2)))"

definition operator_R_mul :: "Real \<Rightarrow> AReal \<Rightarrow> ADGraph \<Rightarrow> error + (AReal \<times> ADGraph)" where
  "operator_R_mul l r g = operator_mul_R r l g"

text \<open>\<^verbatim>\<open>Inv\<close> has an overload on active scalars, which records a vertex, and one on plain
  numbers, which only computes \<open>1 / x\<close>.\<close>

definition Inv :: "AReal \<Rightarrow> ADGraph \<Rightarrow> error + (AReal \<times> ADGraph)" where
  "Inv x g =
     (let invX = 1 / val x;
          invXSq = invX * invX;
          invXCu = invXSq * invX;
          (ret, g1) = NewAReal invX g in
      bindE (AddEdge1 ret x (- invXSq) (2 * invXCu) g1) (\<lambda>g2. Inr (ret, g2)))"

definition Inv_R :: "Real \<Rightarrow> Real" where
  "Inv_R x = 1 / x"

text \<open>Division: \<^verbatim>\<open>return l * Inv(r);\<close> in all three overloads; overload resolution picks
  the \<^verbatim>\<open>Inv\<close> and the \<^verbatim>\<open>operator*\<close> that fit the argument types.\<close>

definition operator_div :: "AReal \<Rightarrow> AReal \<Rightarrow> ADGraph \<Rightarrow> error + (AReal \<times> ADGraph)" where
  "operator_div l r g = bindE (Inv r g) (\<lambda>(ir, g1). operator_mul l ir g1)"

definition operator_div_R :: "AReal \<Rightarrow> Real \<Rightarrow> ADGraph \<Rightarrow> error + (AReal \<times> ADGraph)" where
  "operator_div_R l r g = operator_mul_R l (Inv_R r) g"

definition operator_R_div :: "Real \<Rightarrow> AReal \<Rightarrow> ADGraph \<Rightarrow> error + (AReal \<times> ADGraph)" where
  "operator_R_div l r g = bindE (Inv r g) (\<lambda>(ir, g1). operator_R_mul l ir g1)"

definition sqrt_A :: "AReal \<Rightarrow> ADGraph \<Rightarrow> error + (AReal \<times> ADGraph)" where
  "sqrt_A x g =
     (let sqrtX = sqrt (val x);
          invSqrtX = 1 / sqrtX;
          (ret, g1) = NewAReal sqrtX g in
      bindE (AddEdge1 ret x (0.5 * invSqrtX) (- 0.25 * invSqrtX / val x) g1) (\<lambda>g2. Inr (ret, g2)))"

text \<open>
  \<^verbatim>\<open>std::pow\<close> on the arguments where it returns a finite number: \<open>pow(x, 0) = 1\<close>; a
  positive base gives \<open>x\<close> to the power \<open>a\<close>; \<open>pow(0, a) = 0\<close> for \<open>a > 0\<close>; a negative base
  with an integer exponent gives \<open>|x|\<close> to the power \<open>a\<close>, negated when \<open>a\<close> is odd. Where the
  C++ function returns an infinity or NaN (base 0 with a negative exponent, a negative base
  with an exponent that is not an integer) the value 0 of the model stands for no number.
\<close>

definition std_pow :: "Real \<Rightarrow> Real \<Rightarrow> Real" where
  "std_pow x a =
     (if a = 0 then 1
      else if 0 < x then x powr a
      else if x = 0 then 0
      else if of_int \<lfloor>a\<rfloor> = a then (if even \<lfloor>a\<rfloor> then (- x) powr a else - ((- x) powr a))
      else 0)"

definition pow_A :: "AReal \<Rightarrow> Real \<Rightarrow> ADGraph \<Rightarrow> error + (AReal \<times> ADGraph)" where
  "pow_A x a g =
     (let powX = std_pow (val x) a;
          (ret, g1) = NewAReal powX g in
      bindE (AddEdge1 ret x (a * std_pow (val x) (a - 1)) (a * (a - 1) * std_pow (val x) (a - 2)) g1)
        (\<lambda>g2. Inr (ret, g2)))"

definition exp_A :: "AReal \<Rightarrow> ADGraph \<Rightarrow> error + (AReal \<times> ADGraph)" where
  "exp_A x g =
     (let expX = exp (val x);
          (ret, g1) = NewAReal expX g in
      bindE (AddEdge1 ret x expX expX g1) (\<lambda>g2. Inr (ret, g2)))"

definition log_A :: "AReal \<Rightarrow> ADGraph \<Rightarrow> error + (AReal \<times> ADGraph)" where
  "log_A x g =
     (let logX = ln (val x);
          (ret, g1) = NewAReal logX g;
          invX = 1 / val x in
      bindE (AddEdge1 ret x invX (- invX * invX) g1) (\<lambda>g2. Inr (ret, g2)))"

definition sin_A :: "AReal \<Rightarrow> ADGraph \<Rightarrow> error + (AReal \<times> ADGraph)" where
  "sin_A x g =
     (let sinX = sin (val x);
          (ret, g1) = NewAReal sinX g in
      bindE (AddEdge1 ret x (cos (val x)) (- sinX) g1) (\<lambda>g2. Inr (ret, g2)))"

definition cos_A :: "AReal \<Rightarrow> ADGraph \<Rightarrow> error + (AReal \<times> ADGraph)" where
  "cos_A x g =
     (let cosX = cos (val x);
          (ret, g1) = NewAReal cosX g in
      bindE (AddEdge1 ret x (- sin (val x)) (- cosX) g1) (\<lambda>g2. Inr (ret, g2)))"

definition tan_A :: "AReal \<Rightarrow> ADGraph \<Rightarrow> error + (AReal \<times> ADGraph)" where
  "tan_A x g =
     (let tanX = tan (val x);
          secX = 1 / cos (val x);
          sec2X = secX * secX;
          (ret, g1) = NewAReal tanX g in
      bindE (AddEdge1 ret x sec2X (2 * tanX * sec2X) g1) (\<lambda>g2. Inr (ret, g2)))"

definition asin_A :: "AReal \<Rightarrow> ADGraph \<Rightarrow> error + (AReal \<times> ADGraph)" where
  "asin_A x g =
     (let asinX = arcsin (val x);
          (ret, g1) = NewAReal asinX g;
          tmp = 1 / (1 - val x * val x);
          sqrtTmp = sqrt tmp in
      bindE (AddEdge1 ret x sqrtTmp (val x * sqrtTmp * tmp) g1) (\<lambda>g2. Inr (ret, g2)))"

definition acos_A :: "AReal \<Rightarrow> ADGraph \<Rightarrow> error + (AReal \<times> ADGraph)" where
  "acos_A x g =
     (let acosX = arccos (val x);
          (ret, g1) = NewAReal acosX g;
          tmp = 1 / (1 - val x * val x);
          negSqrtTmp = - sqrt tmp in
      bindE (AddEdge1 ret x negSqrtTmp (val x * negSqrtTmp * tmp) g1) (\<lambda>g2. Inr (ret, g2)))"

section \<open>Seeding and reading results\<close>

definition SetAdjoint :: "AReal \<Rightarrow> Real \<Rightarrow> ADGraph \<Rightarrow> error + ADGraph" where
  "SetAdjoint v adj g =
     (let i = unat (varId v) in
      if i < length (vertices g) then
        Inr (g\<lparr>vertices := (vertices g)[i := (vertices g ! i)\<lparr>w := adj\<rparr>]\<rparr>)
      else Inl OutOfBounds)"

definition GetAdjoint :: "AReal \<Rightarrow> ADGraph \<Rightarrow> error + Real" where
  "GetAdjoint v g =
     (let i = unat (varId v) in
      if i < length (vertices g) then Inr (w (vertices g ! i)) else Inl OutOfBounds)"

text \<open>The two-argument \<^verbatim>\<open>GetAdjoint(i, j)\<close> reads through \<^verbatim>\<open>coeffRef\<close>, so it returns the
  tape as well: the slot it read exists afterwards.\<close>

definition GetAdjoint2 :: "AReal \<Rightarrow> AReal \<Rightarrow> ADGraph \<Rightarrow> error + (Real \<times> ADGraph)" where
  "GetAdjoint2 i j g =
     (let r = unat (min (varId i) (varId j)); c = unat (max (varId i) (varId j)) in
      case coeffRef (soEdges g) r c of
        Inl e \<Rightarrow> Inl e
      | Inr m \<Rightarrow> Inr (coeff m r c, g\<lparr>soEdges := m\<rparr>))"

section \<open>Edge pushing\<close>

definition PushEdge :: "ADEdge \<Rightarrow> ADEdge \<Rightarrow> ADGraph \<Rightarrow> error + ADGraph" where
  "PushEdge foEdge soEdge g =
     (if to foEdge = to soEdge then
        AddSoEdge (to foEdge) (to foEdge) (2 * ew foEdge * ew soEdge) g
      else
        AddSoEdge (to foEdge) (to soEdge) (ew foEdge * ew soEdge) g)"

text \<open>
  The body of the loop over the iterator in \<^verbatim>\<open>PropagateAdjoint\<close>, for one stored coefficient
  \<open>(index, value)\<close> of column \<open>vid\<close>; \<open>f1\<close> and \<open>f2\<close> are the vertex's edges \<^verbatim>\<open>e1\<close>, \<^verbatim>\<open>e2\<close>.
\<close>

definition push_entry ::
  "VertexId \<Rightarrow> ADEdge \<Rightarrow> ADEdge \<Rightarrow> nat \<times> Real \<Rightarrow> ADGraph \<Rightarrow> error + ADGraph" where
  "push_entry vid f1 f2 it g =
     (let soEdge = mk_ADEdge (of_nat (fst it)) (snd it) in
      if to soEdge \<noteq> vid then
        bindE (PushEdge f1 soEdge g) (\<lambda>g1.
          if to f2 \<noteq> vid then PushEdge f2 soEdge g1 else Inr g1)
      else
        bindE (AddSoEdge (to f1) (to f1) (ew f1 * ew f1 * ew soEdge) g) (\<lambda>g1.
          if to f2 \<noteq> vid then
            bindE (AddSoEdge (to f2) (to f2) (ew f2 * ew f2 * ew soEdge) g1) (\<lambda>g2.
              AddSoEdge (to f1) (to f2)
                (if to f1 = to f2 then 2 * ew f1 * ew f2 * ew soEdge
                 else ew f1 * ew f2 * ew soEdge) g2)
          else Inr g1))"

text \<open>
  The loop itself. The iterator is taken once, when the loop starts; none of the writes of
  the body goes to column \<open>vid\<close> (lemma \<open>push_entries_column\<close> below), so the coefficients
  it still has to visit are the ones it listed.
\<close>

fun push_entries ::
  "VertexId \<Rightarrow> ADEdge \<Rightarrow> ADEdge \<Rightarrow> (nat \<times> Real) list \<Rightarrow> ADGraph \<Rightarrow> error + ADGraph" where
  "push_entries vid f1 f2 [] g = Inr g"
| "push_entries vid f1 f2 (it # its) g =
     bindE (push_entry vid f1 f2 it g) (push_entries vid f1 f2 its)"

text \<open>The block \<^verbatim>\<open>// Creating\<close>, entered with \<open>a \<noteq> 0\<close>.\<close>

definition creating :: "VertexId \<Rightarrow> ADVertex \<Rightarrow> Real \<Rightarrow> ADGraph \<Rightarrow> error + ADGraph" where
  "creating vid vertex a g =
     (if soW vertex \<noteq> 0 then
        if to (e2 vertex) = vid then
          AddSoEdge (to (e1 vertex)) (to (e1 vertex)) (a * soW vertex) g
        else
          AddSoEdge (to (e1 vertex)) (to (e2 vertex))
            (if to (e1 vertex) = to (e2 vertex) then 2 * a * soW vertex else a * soW vertex) g
      else Inr g)"

text \<open>\<^verbatim>\<open>vertices[i].w += x\<close>, an unchecked index.\<close>

definition add_w :: "VertexId \<Rightarrow> Real \<Rightarrow> ADGraph \<Rightarrow> error + ADGraph" where
  "add_w i x g =
     (if unat i < length (vertices g) then
        Inr (g\<lparr>vertices := (vertices g)[unat i := (vertices g ! unat i)\<lparr>w := w (vertices g ! unat i) + x\<rparr>]\<rparr>)
      else Inl OutOfBounds)"

text \<open>The block \<^verbatim>\<open>// Adjoint\<close>: the vertex's own adjoint is zeroed, then pushed to the
  parents.\<close>

definition adjoint :: "VertexId \<Rightarrow> ADVertex \<Rightarrow> Real \<Rightarrow> ADGraph \<Rightarrow> error + ADGraph" where
  "adjoint vid vertex a g =
     (let g0 = g\<lparr>vertices := (vertices g)[unat vid := (vertices g ! unat vid)\<lparr>w := 0\<rparr>]\<rparr> in
      bindE (add_w (to (e1 vertex)) (a * ew (e1 vertex)) g0) (\<lambda>g1.
        if to (e2 vertex) \<noteq> vid then add_w (to (e2 vertex)) (a * ew (e2 vertex)) g1
        else Inr g1))"

text \<open>What follows the loop over the iterator: \<^verbatim>\<open>Real a = vertex.w; if (a != Real(0.0)) { ... }\<close>\<close>

definition create_and_adjoint :: "VertexId \<Rightarrow> ADGraph \<Rightarrow> error + ADGraph" where
  "create_and_adjoint vid g =
     (let a = w (vertices g ! unat vid) in
      if a \<noteq> 0 then
        bindE (creating vid (vertices g ! unat vid) a g) (\<lambda>g2.
          adjoint vid (vertices g2 ! unat vid) a g2)
      else Inr g)"

text \<open>One iteration of the outer loop of \<^verbatim>\<open>PropagateAdjoint\<close>, for vertex \<open>vid\<close>:
  a leaf is skipped; otherwise the stored coefficients of column \<open>vid\<close> are pushed, then
  the local curvature is created and the adjoint propagated.\<close>

definition visit :: "VertexId \<Rightarrow> ADGraph \<Rightarrow> error + ADGraph" where
  "visit vid g =
     (if unat vid < length (vertices g) then
        let vertex = vertices g ! unat vid in
        if to (e1 vertex) = vid then Inr g
        else
          bindE (InnerIterator (soEdges g) (unat vid)) (\<lambda>its.
          bindE (push_entries vid (e1 vertex) (e2 vertex) its g) (create_and_adjoint vid))
      else Inl OutOfBounds)"

text \<open>\<^verbatim>\<open>for (VertexId vid = ...; vid > 0; vid--)\<close>\<close>

function sweep :: "VertexId \<Rightarrow> ADGraph \<Rightarrow> error + ADGraph" where
  "sweep vid g = (if vid > 0 then bindE (visit vid g) (sweep (vid - 1)) else Inr g)"
  by pat_completeness auto
termination
  by (relation "measure (\<lambda>(vid, g). unat vid)") (auto simp: word_greater_zero_iff unat_minus_one unat_gt_0)

declare sweep.simps [simp del]

text \<open>The first iterations of the same loop: from \<open>vid\<close> down to, and without, \<open>lo\<close>.
  It names the tape that the sweep has reached when it arrives at a vertex.\<close>

function sweep_to :: "VertexId \<Rightarrow> VertexId \<Rightarrow> ADGraph \<Rightarrow> error + ADGraph" where
  "sweep_to lo vid g = (if vid > lo then bindE (visit vid g) (sweep_to lo (vid - 1)) else Inr g)"
  by pat_completeness auto
termination
proof (relation "measure (\<lambda>(lo, vid, g). unat vid)")
  show "wf (measure (\<lambda>(lo, vid, g). unat vid))" by simp
next
  fix lo vid :: VertexId and g x :: ADGraph
  assume "lo < vid"
  then have "vid \<noteq> 0" by (metis word_not_simps(1))
  then have "unat (vid - 1) < unat vid"
    by (simp add: unat_minus_one unat_gt_0 word_greater_zero_iff)
  then show "((lo, vid - 1, x), lo, vid, g) \<in> measure (\<lambda>(lo, vid, g). unat vid)" by simp
qed

declare sweep_to.simps [simp del]

text \<open>The index the sweep starts from: \<^verbatim>\<open>vertices.size() - 1\<close>, computed in \<^verbatim>\<open>size_t\<close> and
  converted to \<open>VertexId\<close>; on an empty tape it is \<open>2^32 - 1\<close>.\<close>

definition start_vid :: "ADGraph \<Rightarrow> VertexId" where
  "start_vid g = of_nat (length (vertices g)) - 1"

text \<open>\<^verbatim>\<open>PropagateAdjoint\<close>: the accumulator is resized to the number of vertices, then the
  sweep runs.\<close>

definition PropagateAdjoint :: "ADGraph \<Rightarrow> error + ADGraph" where
  "PropagateAdjoint g =
     (let n = length (vertices g);
          g0 = g\<lparr>soEdges := resize (soEdges g) n n\<rparr>
      in sweep (start_vid g0) g0)"

section \<open>Properties of tapes\<close>

text \<open>An active scalar that lives on the tape: its id indexes a vertex.\<close>

definition on_tape :: "ADGraph \<Rightarrow> AReal \<Rightarrow> bool" where
  "on_tape g x = (unat (varId x) < length (vertices g))"

text \<open>The operations that produce an active scalar, with their operands. The compound
  assignments (\<^verbatim>\<open>+=\<close>, \<^verbatim>\<open>-=\<close>, \<^verbatim>\<open>*=\<close>, \<^verbatim>\<open>/=\<close>) apply the operator and assign the result, so
  they record what the operator records.\<close>

datatype operation =
    Leaf Real
  | Add AReal AReal | AddR AReal Real | RAdd Real AReal
  | Sub AReal AReal | SubR AReal Real | RSub Real AReal
  | Mul AReal AReal | MulR AReal Real | RMul Real AReal
  | InvA AReal
  | Div AReal AReal | DivR AReal Real | RDiv Real AReal
  | Sqrt AReal | Pow AReal Real | Exp AReal | Log AReal
  | Sin AReal | Cos AReal | Tan AReal | Asin AReal | Acos AReal

fun apply_op :: "operation \<Rightarrow> ADGraph \<Rightarrow> error + (AReal \<times> ADGraph)" where
  "apply_op (Leaf x) g = Inr (NewAReal x g)"
| "apply_op (Add l r) g = operator_add l r g"
| "apply_op (AddR l r) g = operator_add_R l r g"
| "apply_op (RAdd l r) g = operator_R_add l r g"
| "apply_op (Sub l r) g = operator_sub l r g"
| "apply_op (SubR l r) g = operator_sub_R l r g"
| "apply_op (RSub l r) g = operator_R_sub l r g"
| "apply_op (Mul l r) g = operator_mul l r g"
| "apply_op (MulR l r) g = operator_mul_R l r g"
| "apply_op (RMul l r) g = operator_R_mul l r g"
| "apply_op (InvA x) g = Inv x g"
| "apply_op (Div l r) g = operator_div l r g"
| "apply_op (DivR l r) g = operator_div_R l r g"
| "apply_op (RDiv l r) g = operator_R_div l r g"
| "apply_op (Sqrt x) g = sqrt_A x g"
| "apply_op (Pow x a) g = pow_A x a g"
| "apply_op (Exp x) g = exp_A x g"
| "apply_op (Log x) g = log_A x g"
| "apply_op (Sin x) g = sin_A x g"
| "apply_op (Cos x) g = cos_A x g"
| "apply_op (Tan x) g = tan_A x g"
| "apply_op (Asin x) g = asin_A x g"
| "apply_op (Acos x) g = acos_A x g"

fun operands :: "operation \<Rightarrow> AReal list" where
  "operands (Leaf x) = []"
| "operands (Add l r) = [l, r]"
| "operands (AddR l r) = [l]"
| "operands (RAdd l r) = [r]"
| "operands (Sub l r) = [l, r]"
| "operands (SubR l r) = [l]"
| "operands (RSub l r) = [r]"
| "operands (Mul l r) = [l, r]"
| "operands (MulR l r) = [l]"
| "operands (RMul l r) = [r]"
| "operands (InvA x) = [x]"
| "operands (Div l r) = [l, r]"
| "operands (DivR l r) = [l]"
| "operands (RDiv l r) = [r]"
| "operands (Sqrt x) = [x]"
| "operands (Pow x a) = [x]"
| "operands (Exp x) = [x]"
| "operands (Log x) = [x]"
| "operands (Sin x) = [x]"
| "operands (Cos x) = [x]"
| "operands (Tan x) = [x]"
| "operands (Asin x) = [x]"
| "operands (Acos x) = [x]"

text \<open>
  The tapes a program can build: it starts from a fresh tape and applies operations to
  active scalars it already holds, that is, scalars on the tape.
\<close>

inductive recorded :: "ADGraph \<Rightarrow> bool" where
  fresh: "recorded new_ADGraph"
| step: "recorded g \<Longrightarrow> list_all (on_tape g) (operands opn) \<Longrightarrow>
         apply_op opn g = Inr (ret, g') \<Longrightarrow> recorded g'"

text \<open>Invariants (V1) and (V2): edges point to strictly older vertices or to the vertex
  itself, and a second edge comes with a first one.\<close>

definition edges_backward :: "ADGraph \<Rightarrow> bool" where
  "edges_backward g =
     (\<forall>v \<in> {0..<length (vertices g)}.
        (to (e1 (vertices g ! v)) \<noteq> of_nat v \<longrightarrow> unat (to (e1 (vertices g ! v))) < v) \<and>
        (to (e2 (vertices g ! v)) \<noteq> of_nat v \<longrightarrow> unat (to (e2 (vertices g ! v))) < v) \<and>
        (to (e2 (vertices g ! v)) \<noteq> of_nat v \<longrightarrow> to (e1 (vertices g ! v)) \<noteq> of_nat v))"

text \<open>Every edge of the tape points to a vertex of the tape.\<close>

definition edges_in_range :: "ADGraph \<Rightarrow> bool" where
  "edges_in_range g =
     (\<forall>v \<in> set (vertices g).
        unat (to (e1 v)) < length (vertices g) \<and> unat (to (e2 v)) < length (vertices g))"

text \<open>Invariant (V4): stored coefficients lie on or above the diagonal.\<close>

definition upper_triangular :: "SparseMatrix \<Rightarrow> bool" where
  "upper_triangular m = (\<forall>k \<in> dom (entries m). fst k \<le> snd k)"

text \<open>Stored coefficients lie inside the dimensions (\<^verbatim>\<open>coeffRef\<close> stores no other).\<close>

definition in_dims :: "SparseMatrix \<Rightarrow> bool" where
  "in_dims m = (\<forall>k \<in> dom (entries m). fst k < rows m \<and> snd k < cols m)"

section \<open>Scenarios\<close>

text \<open>\<open>f = x * x\<close> at \<open>x = 5\<close>, seeded with adjoint 1 on \<open>f\<close> and propagated.\<close>

definition scenario_square :: "error + (AReal \<times> AReal \<times> ADGraph)" where
  "scenario_square =
     (let (x, g1) = NewAReal 5 new_ADGraph in
      bindE (operator_mul x x g1) (\<lambda>(f, g2).
      bindE (SetAdjoint f 1 g2) (\<lambda>g3.
      bindE (PropagateAdjoint g3) (\<lambda>g4. Inr (x, f, g4)))))"

text \<open>\<open>f = log (x * x + y * y)\<close> at \<open>x = 1\<close>, \<open>y = 1\<close>.\<close>

definition scenario_log :: "error + (AReal \<times> AReal \<times> AReal \<times> ADGraph)" where
  "scenario_log =
     (let (x, g1) = NewAReal 1 new_ADGraph;
          (y, g2) = NewAReal 1 g1 in
      bindE (operator_mul x x g2) (\<lambda>(xx, g3).
      bindE (operator_mul y y g3) (\<lambda>(yy, g4).
      bindE (operator_add xx yy g4) (\<lambda>(s, g5).
      bindE (log_A s g5) (\<lambda>(f, g6).
      bindE (SetAdjoint f 1 g6) (\<lambda>g7.
      bindE (PropagateAdjoint g7) (\<lambda>g8. Inr (x, y, f, g8))))))))"

text \<open>Reading one Hessian coefficient, dropping the tape that the read returns.\<close>

definition hessian_of :: "AReal \<Rightarrow> AReal \<Rightarrow> ADGraph \<Rightarrow> error + Real" where
  "hessian_of x y g = map_sum id fst (GetAdjoint2 x y g)"

section \<open>Division as the specification words it\<close>

text \<open>
  The specification defines \<open>x / y\<close> as \<open>x * Inv(y)\<close>, two tape entries, with the edge
  weights of its table: \<open>Inv(x)\<close> has \<open>e1.w = -1/x\<^sup>2\<close> and \<open>soW = 2/x\<^sup>3\<close>; \<open>x * y\<close> has
  \<open>e1.w = y.val\<close>, \<open>e2.w = x.val\<close> and \<open>soW = 1\<close>; \<open>x * c\<close> has \<open>e1.w = c\<close> and \<open>soW = 0\<close>.
  The following definitions are written from these words, for comparison with the
  operators above.
\<close>

definition spec_Inv_vertex :: "AReal \<Rightarrow> VertexId \<Rightarrow> ADVertex" where
  "spec_Inv_vertex x self =
     \<lparr>e1 = \<lparr>to = varId x, ew = - 1 / (val x)\<^sup>2\<rparr>, e2 = \<lparr>to = self, ew = 0\<rparr>, w = 0,
      soW = 2 / (val x) ^ 3\<rparr>"

definition spec_mul_vertex :: "AReal \<Rightarrow> AReal \<Rightarrow> ADVertex" where
  "spec_mul_vertex x y =
     \<lparr>e1 = \<lparr>to = varId x, ew = val y\<rparr>, e2 = \<lparr>to = varId y, ew = val x\<rparr>, w = 0, soW = 1\<rparr>"

definition spec_mul_const_vertex :: "AReal \<Rightarrow> Real \<Rightarrow> VertexId \<Rightarrow> ADVertex" where
  "spec_mul_const_vertex x c self =
     \<lparr>e1 = \<lparr>to = varId x, ew = c\<rparr>, e2 = \<lparr>to = self, ew = 0\<rparr>, w = 0, soW = 0\<rparr>"

definition spec_div :: "AReal \<Rightarrow> AReal \<Rightarrow> ADGraph \<Rightarrow> AReal \<times> ADGraph" where
  "spec_div x y g =
     (let n = length (vertices g);
          iy = \<lparr>val = 1 / val y, varId = of_nat n\<rparr>
      in (\<lparr>val = val x * val iy, varId = of_nat (n + 1)\<rparr>,
          g\<lparr>vertices := vertices g @ [spec_Inv_vertex y (of_nat n), spec_mul_vertex x iy]\<rparr>))"

definition spec_R_div :: "Real \<Rightarrow> AReal \<Rightarrow> ADGraph \<Rightarrow> AReal \<times> ADGraph" where
  "spec_R_div c y g =
     (let n = length (vertices g);
          iy = \<lparr>val = 1 / val y, varId = of_nat n\<rparr>
      in (\<lparr>val = val iy * c, varId = of_nat (n + 1)\<rparr>,
          g\<lparr>vertices := vertices g @
             [spec_Inv_vertex y (of_nat n), spec_mul_const_vertex iy c (of_nat (n + 1))]\<rparr>))"

section \<open>Auxiliary notions and concrete tapes\<close>

text \<open>The tape with one more vertex at its end.\<close>

definition appended :: "ADGraph \<Rightarrow> ADVertex \<Rightarrow> ADGraph" where
  "appended g vx = g\<lparr>vertices := vertices g @ [vx]\<rparr>"

text \<open>The state in which the sweep runs on a tape of \<open>n\<close> vertices: the accumulator has
  been resized to \<open>n\<close> by \<open>n\<close> and all edges are in range.\<close>

definition safe_state :: "nat \<Rightarrow> ADGraph \<Rightarrow> bool" where
  "safe_state n g =
     (length (vertices g) = n \<and> rows (soEdges g) = n \<and> cols (soEdges g) = n \<and>
      edges_in_range g)"

text \<open>A tape with the single leaf of id 0.\<close>

definition tape_leaf :: ADGraph where
  "tape_leaf = \<lparr>vertices = [mk_ADVertex 0], soEdges = empty_matrix\<rparr>"

text \<open>The tape of \<open>f = x * x\<close> at \<open>x = 5\<close>, not seeded; and the same tape with a 2 x 2
  accumulator that stores the coefficient 1 at \<open>(1, 1)\<close>.\<close>

definition tape_square :: ADGraph where
  "tape_square =
     \<lparr>vertices = [mk_ADVertex 0,
                  \<lparr>e1 = \<lparr>to = 0, ew = 5\<rparr>, e2 = \<lparr>to = 0, ew = 5\<rparr>, w = 0, soW = 1\<rparr>],
      soEdges = empty_matrix\<rparr>"

definition tape_square_diag :: ADGraph where
  "tape_square_diag =
     tape_square\<lparr>soEdges := \<lparr>rows = 2, cols = 2, entries = [(1, 1) \<mapsto> 1]\<rparr>\<rparr>"

text \<open>
  A pure Hessian seeding of \<open>f = x * 3\<close> at \<open>x = 1\<close>. The accumulator of a fresh tape is
  0 x 0, so the caller has to resize it before \<^verbatim>\<open>AddSoEdge\<close> can store the seed at
  \<open>(f, f)\<close>.
\<close>

definition seed_scenario :: "error + ADGraph" where
  "seed_scenario =
     (let (x, g1) = NewAReal 1 new_ADGraph in
      bindE (operator_mul_R x 3 g1) (\<lambda>(f, g2).
        AddSoEdge (varId f) (varId f) 1 (g2\<lparr>soEdges := resize (soEdges g2) 2 2\<rparr>)))"

definition tape_seeded :: ADGraph where
  "tape_seeded =
     \<lparr>vertices = [mk_ADVertex 0,
                  \<lparr>e1 = \<lparr>to = 0, ew = 3\<rparr>, e2 = \<lparr>to = 1, ew = 0\<rparr>, w = 0, soW = 0\<rparr>],
      soEdges = \<lparr>rows = 2, cols = 2, entries = [(1, 1) \<mapsto> 1]\<rparr>\<rparr>"

text \<open>
  The diagonal push as the specification words it: a diagonal coefficient \<open>(v, v)\<close> with
  weight \<open>s\<close> adds \<open>e1.w\<^sup>2 s\<close> at \<open>(e1.to, e1.to)\<close> and, if \<open>e2\<close> exists, \<open>e2.w\<^sup>2 s\<close> at
  \<open>(e2.to, e2.to)\<close> and \<open>e1.w e2.w s\<close>, doubled when \<open>e1.to = e2.to\<close>, at the pair
  \<open>(e1.to, e2.to)\<close>. \<open>diagonal_push f1 f2 vid s i j\<close> is what the slot \<open>(i, j)\<close> receives.
\<close>

definition diagonal_push :: "ADEdge \<Rightarrow> ADEdge \<Rightarrow> VertexId \<Rightarrow> Real \<Rightarrow> nat \<Rightarrow> nat \<Rightarrow> Real" where
  "diagonal_push f1 f2 vid s i j =
     (if (i, j) = (unat (to f1), unat (to f1)) then ew f1 * ew f1 * s else 0) +
     (if to f2 \<noteq> vid then
        (if (i, j) = (unat (to f2), unat (to f2)) then ew f2 * ew f2 * s else 0) +
        (if (i, j) = (unat (min (to f1) (to f2)), unat (max (to f1) (to f2))) then
           (if to f1 = to f2 then 2 * ew f1 * ew f2 * s else ew f1 * ew f2 * s)
         else 0)
      else 0)"

text \<open>
  \<open>f = exp (x * 3)\<close> at \<open>x = 0\<close>, seeded with adjoint 1 on \<open>f\<close>: the tape when
  \<^verbatim>\<open>PropagateAdjoint\<close> is called, and the tape when the sweep reaches vertex 1, with the
  curvature of \<open>exp\<close> stored at \<open>(1, 1)\<close>.
\<close>

definition tape_exp :: ADGraph where
  "tape_exp =
     \<lparr>vertices = [mk_ADVertex 0,
                  \<lparr>e1 = \<lparr>to = 0, ew = 3\<rparr>, e2 = \<lparr>to = 1, ew = 0\<rparr>, w = 0, soW = 0\<rparr>,
                  \<lparr>e1 = \<lparr>to = 1, ew = 1\<rparr>, e2 = \<lparr>to = 2, ew = 0\<rparr>, w = 1, soW = 1\<rparr>],
      soEdges = empty_matrix\<rparr>"

definition tape_exp_at_1 :: ADGraph where
  "tape_exp_at_1 =
     \<lparr>vertices = [mk_ADVertex 0,
                  \<lparr>e1 = \<lparr>to = 0, ew = 3\<rparr>, e2 = \<lparr>to = 1, ew = 0\<rparr>, w = 1, soW = 0\<rparr>,
                  \<lparr>e1 = \<lparr>to = 1, ew = 1\<rparr>, e2 = \<lparr>to = 2, ew = 0\<rparr>, w = 0, soW = 1\<rparr>],
      soEdges = \<lparr>rows = 3, cols = 3, entries = [(1, 1) \<mapsto> 1]\<rparr>\<rparr>"

definition exp_scenario :: "error + ADGraph" where
  "exp_scenario =
     (let (x, g1) = NewAReal 0 new_ADGraph in
      bindE (operator_mul_R x 3 g1) (\<lambda>(u, g2).
      bindE (exp_A u g2) (\<lambda>(f, g3). SetAdjoint f 1 g3)))"

text \<open>
  \<open>f = (x * 2) * y\<close> at \<open>x = 3\<close>, \<open>y = 5\<close>, seeded and propagated, once with the leaf \<open>y\<close>
  created after \<open>a = x * 2\<close> and once with both leaves created first; the results are
  \<open>x\<close>, \<open>y\<close> and the tape after the propagation. \<open>late_leaf_record\<close> stops before the
  propagation; \<open>tape_late\<close> is the tape it returns, \<open>tape_late_at_1\<close> the same tape when the
  sweep reaches vertex 1.
\<close>

definition late_leaf_record :: "error + (AReal \<times> AReal \<times> ADGraph)" where
  "late_leaf_record =
     (let (x, g1) = NewAReal 3 new_ADGraph in
      bindE (operator_mul_R x 2 g1) (\<lambda>(a, g2).
      let (y, g3) = NewAReal 5 g2 in
      bindE (operator_mul a y g3) (\<lambda>(f, g4).
      bindE (SetAdjoint f 1 g4) (\<lambda>g5. Inr (x, y, g5)))))"

definition late_leaf_scenario :: "error + (AReal \<times> AReal \<times> ADGraph)" where
  "late_leaf_scenario =
     bindE late_leaf_record (\<lambda>(x, y, g5).
     bindE (PropagateAdjoint g5) (\<lambda>g6. Inr (x, y, g6)))"

definition early_leaf_scenario :: "error + (AReal \<times> AReal \<times> ADGraph)" where
  "early_leaf_scenario =
     (let (x, g1) = NewAReal 3 new_ADGraph;
          (y, g2) = NewAReal 5 g1 in
      bindE (operator_mul_R x 2 g2) (\<lambda>(a, g3).
      bindE (operator_mul a y g3) (\<lambda>(f, g4).
      bindE (SetAdjoint f 1 g4) (\<lambda>g5.
      bindE (PropagateAdjoint g5) (\<lambda>g6. Inr (x, y, g6))))))"

definition tape_late :: ADGraph where
  "tape_late =
     \<lparr>vertices = [mk_ADVertex 0,
                  \<lparr>e1 = \<lparr>to = 0, ew = 2\<rparr>, e2 = \<lparr>to = 1, ew = 0\<rparr>, w = 0, soW = 0\<rparr>,
                  mk_ADVertex 2,
                  \<lparr>e1 = \<lparr>to = 1, ew = 5\<rparr>, e2 = \<lparr>to = 2, ew = 6\<rparr>, w = 1, soW = 1\<rparr>],
      soEdges = empty_matrix\<rparr>"

definition tape_late_at_1 :: ADGraph where
  "tape_late_at_1 =
     \<lparr>vertices = [mk_ADVertex 0,
                  \<lparr>e1 = \<lparr>to = 0, ew = 2\<rparr>, e2 = \<lparr>to = 1, ew = 0\<rparr>, w = 5, soW = 0\<rparr>,
                  \<lparr>e1 = \<lparr>to = 2, ew = 0\<rparr>, e2 = \<lparr>to = 2, ew = 0\<rparr>, w = 6, soW = 0\<rparr>,
                  \<lparr>e1 = \<lparr>to = 1, ew = 5\<rparr>, e2 = \<lparr>to = 2, ew = 6\<rparr>, w = 0, soW = 1\<rparr>],
      soEdges = \<lparr>rows = 4, cols = 4, entries = [(1, 2) \<mapsto> 1]\<rparr>\<rparr>"

text \<open>
  The tape of \<open>n\<close> leaves, and the tape that \<open>x + x\<close> makes of \<open>2^32\<close> leaves, for the
  leaf \<open>x\<close> with id 1: the new vertex gets the id \<open>2^32\<close> converted to \<open>VertexId\<close>, that is 0,
  and \<^verbatim>\<open>AddEdge\<close> writes into \<^verbatim>\<open>vertices[0]\<close>.
\<close>

definition leaves :: "nat \<Rightarrow> ADGraph" where
  "leaves n = \<lparr>vertices = map (\<lambda>i. mk_ADVertex (of_nat i)) [0..<n], soEdges = empty_matrix\<rparr>"

definition overflow_tape :: ADGraph where
  "overflow_tape =
     (leaves (2 ^ 32))\<lparr>vertices := (vertices (leaves (2 ^ 32)) @ [mk_ADVertex 0])
        [0 := \<lparr>e1 = \<lparr>to = 1, ew = 1\<rparr>, e2 = \<lparr>to = 1, ew = 1\<rparr>, w = 0, soW = 0\<rparr>]\<rparr>"

section \<open>Evaluation rules\<close>

lemma bindE_Inl [simp]: "bindE (Inl e) f = Inl e"
  by (simp add: bindE_def)

lemma bindE_Inr [simp]: "bindE (Inr x) f = f x"
  by (simp add: bindE_def)

lemma bindE_eq_Inr: "bindE m f = Inr y \<longleftrightarrow> (\<exists>x. m = Inr x \<and> f x = Inr y)"
  by (cases m) simp_all

lemma sweep_zero: "sweep 0 g = Inr g"
  by (simp add: sweep.simps)

lemma sweep_pos: "vid \<noteq> 0 \<Longrightarrow> sweep vid g = bindE (visit vid g) (sweep (vid - 1))"
  by (subst sweep.simps) (simp add: word_greater_zero_iff)

lemma bindE_assoc: "bindE (bindE m f) h = bindE m (\<lambda>x. bindE (f x) h)"
  by (cases m) simp_all

lemma sweep_to_stop: "\<not> lo < vid \<Longrightarrow> sweep_to lo vid g = Inr g"
  by (simp add: sweep_to.simps)

lemma sweep_to_step: "lo < vid \<Longrightarrow> sweep_to lo vid g = bindE (visit vid g) (sweep_to lo (vid - 1))"
  by (subst sweep_to.simps) simp

lemma word_pred_ge:
  assumes "lo < vid"
  shows "lo \<le> vid - (1 :: VertexId)"
proof -
  from assms have l: "unat lo < unat vid" by (simp add: word_less_nat_alt)
  then have "vid \<noteq> 0" by auto
  then have "unat (vid - 1) = unat vid - 1" by (simp add: unat_minus_one)
  with l show ?thesis by (simp add: word_le_nat_alt)
qed

lemma sweep_split: "lo \<le> vid \<Longrightarrow> sweep vid g = bindE (sweep_to lo vid g) (sweep lo)"
proof (induction lo vid g rule: sweep_to.induct)
  case (1 lo vid g)
  show ?case
  proof (cases "lo < vid")
    case False
    with "1.prems" have "vid = lo" by simp
    then show ?thesis by (simp add: sweep_to_stop)
  next
    case True
    then have nz: "vid \<noteq> 0" by (metis word_not_simps(1))
    have "sweep (vid - 1) g' = bindE (sweep_to lo (vid - 1) g') (sweep lo)" for g'
      using "1.IH" [OF True word_pred_ge [OF True]] .
    then have "sweep (vid - 1) = (\<lambda>g'. bindE (sweep_to lo (vid - 1) g') (sweep lo))"
      by (intro ext)
    then show ?thesis
      by (simp add: sweep_pos [OF nz] sweep_to_step [OF True] bindE_assoc)
  qed
qed

lemma upt_numeral_unfold:
  "[i..<numeral n] = (if i < numeral n then i # [Suc i..<numeral n] else [])"
  by (rule upt_rec)

lemmas record_defs =
  NewAReal_def new_ADGraph_def empty_matrix_def AddEdge1_def AddEdge2_def
  mk_ADVertex_def mk_ADEdge_def SetAdjoint_def

lemmas propagate_defs =
  PropagateAdjoint_def start_vid_def resize_def visit_def create_and_adjoint_def InnerIterator_def
  List.map_filter_def
  push_entry_def PushEdge_def creating_def adjoint_def add_w_def AddSoEdge_def
  coeffRef_def coeff_def

lemmas tape_defs =
  tape_leaf_def tape_square_def tape_square_diag_def tape_seeded_def tape_exp_def
  tape_exp_at_1_def tape_late_def tape_late_at_1_def

section \<open>Concrete scenarios\<close>

text \<open>
  Claim C3. On a fresh tape with the leaf \<open>x = 5\<close> and \<open>f = x * x\<close>, after seeding adjoint 1
  on \<open>f\<close> and propagating, \<open>f.val\<close> is 25, the adjoint of \<open>x\<close> is 10 and the second-order
  coefficient at \<open>(x, x)\<close> is 2.
\<close>

theorem square_scenario:
  "\<exists>x f g. scenario_square = Inr (x, f, g) \<and> val f = 25 \<and>
     GetAdjoint x g = Inr 10 \<and> hessian_of x x g = Inr 2"
  by (simp add: scenario_square_def operator_mul_def record_defs propagate_defs
      sweep_pos sweep_zero GetAdjoint_def GetAdjoint2_def hessian_of_def Let_def)

text \<open>
  Claim C5. On a fresh tape with the leaves \<open>x = 1\<close>, \<open>y = 1\<close> and
  \<open>f = log (x * x + y * y)\<close>, after seeding adjoint 1 on \<open>f\<close> and propagating, \<open>f.val\<close> is
  \<open>ln 2\<close>, the adjoints of \<open>x\<close> and \<open>y\<close> are both 1, the coefficients at \<open>(x, x)\<close> and
  \<open>(y, y)\<close> are 0 and the coefficient at \<open>(x, y)\<close> is \<open>-1\<close>.
\<close>

theorem log_scenario:
  "\<exists>x y f g. scenario_log = Inr (x, y, f, g) \<and> val f = ln 2 \<and>
     GetAdjoint x g = Inr 1 \<and> GetAdjoint y g = Inr 1 \<and>
     hessian_of x x g = Inr 0 \<and> hessian_of y y g = Inr 0 \<and> hessian_of x y g = Inr (- 1)"
  by (simp add: scenario_log_def operator_mul_def operator_add_def log_A_def record_defs
      propagate_defs sweep_pos sweep_zero GetAdjoint_def GetAdjoint2_def hessian_of_def Let_def)

section \<open>Writes to the accumulator\<close>

lemma AddSoEdge_Inr:
  "AddSoEdge i j x g = Inr g' \<longleftrightarrow>
     unat (min i j) < rows (soEdges g) \<and> unat (max i j) < cols (soEdges g) \<and>
     g' = g\<lparr>soEdges := (soEdges g)\<lparr>entries := (entries (soEdges g))
            ((unat (min i j), unat (max i j)) \<mapsto>
               coeff (soEdges g) (unat (min i j)) (unat (max i j)) + x)\<rparr>\<rparr>"
  by (auto simp: AddSoEdge_def coeffRef_def coeff_def Let_def split: option.splits)

lemma AddSoEdge_vertices: "AddSoEdge i j x g = Inr g' \<Longrightarrow> vertices g' = vertices g"
  by (simp add: AddSoEdge_Inr)

lemma AddSoEdge_dims:
  "AddSoEdge i j x g = Inr g' \<Longrightarrow>
     rows (soEdges g') = rows (soEdges g) \<and> cols (soEdges g') = cols (soEdges g)"
  by (simp add: AddSoEdge_Inr)

lemma PushEdge_vertices: "PushEdge f s g = Inr g' \<Longrightarrow> vertices g' = vertices g"
  by (auto simp: PushEdge_def split: if_splits dest: AddSoEdge_vertices)

lemma PushEdge_dims:
  "PushEdge f s g = Inr g' \<Longrightarrow>
     rows (soEdges g') = rows (soEdges g) \<and> cols (soEdges g') = cols (soEdges g)"
  by (auto simp: PushEdge_def split: if_splits dest: AddSoEdge_dims)

lemma push_entry_vertices: "push_entry vid f1 f2 it g = Inr g' \<Longrightarrow> vertices g' = vertices g"
  by (auto simp: push_entry_def Let_def bindE_eq_Inr split: if_splits
      dest!: AddSoEdge_vertices PushEdge_vertices)

lemma push_entry_dims:
  "push_entry vid f1 f2 it g = Inr g' \<Longrightarrow>
     rows (soEdges g') = rows (soEdges g) \<and> cols (soEdges g') = cols (soEdges g)"
  by (auto simp: push_entry_def Let_def bindE_eq_Inr split: if_splits
      dest!: AddSoEdge_dims PushEdge_dims)

lemma push_entries_vertices:
  "push_entries vid f1 f2 its g = Inr g' \<Longrightarrow> vertices g' = vertices g"
  by (induction its arbitrary: g) (auto simp: bindE_eq_Inr dest: push_entry_vertices)

lemma push_entries_dims:
  "push_entries vid f1 f2 its g = Inr g' \<Longrightarrow>
     rows (soEdges g') = rows (soEdges g) \<and> cols (soEdges g') = cols (soEdges g)"
  by (induction its arbitrary: g) (auto simp: bindE_eq_Inr dest: push_entry_dims)

lemma creating_vertices: "creating vid vx a g = Inr g' \<Longrightarrow> vertices g' = vertices g"
  by (auto simp: creating_def split: if_splits dest: AddSoEdge_vertices)

lemma creating_dims:
  "creating vid vx a g = Inr g' \<Longrightarrow>
     rows (soEdges g') = rows (soEdges g) \<and> cols (soEdges g') = cols (soEdges g)"
  by (auto simp: creating_def split: if_splits dest: AddSoEdge_dims)

lemma add_w_soEdges: "add_w i x g = Inr g' \<Longrightarrow> soEdges g' = soEdges g"
  by (auto simp: add_w_def split: if_splits)

lemma adjoint_soEdges: "adjoint vid vx a g = Inr g' \<Longrightarrow> soEdges g' = soEdges g"
  by (auto simp: adjoint_def Let_def bindE_eq_Inr split: if_splits dest!: add_w_soEdges)

subsection \<open>The iterator's column is not written while it is walked\<close>

lemma AddSoEdge_column:
  assumes "AddSoEdge i j x g = Inr g'" "i \<noteq> vid" "j \<noteq> vid"
  shows "entries (soEdges g') (r, unat vid) = entries (soEdges g) (r, unat vid)"
proof -
  have "max i j \<noteq> vid" using assms(2,3) by (simp add: max_def)
  then have "unat (max i j) \<noteq> unat vid" by (simp add: word_unat_eq_iff)
  with assms(1) show ?thesis by (simp add: AddSoEdge_Inr)
qed

lemma PushEdge_column:
  assumes "PushEdge f s g = Inr g'" "to f \<noteq> vid" "to s \<noteq> vid"
  shows "entries (soEdges g') (r, unat vid) = entries (soEdges g) (r, unat vid)"
  using assms by (auto simp: PushEdge_def split: if_splits dest: AddSoEdge_column)

lemma push_entry_column:
  assumes "push_entry vid f1 f2 it g = Inr g'" "to f1 \<noteq> vid"
  shows "entries (soEdges g') (r, unat vid) = entries (soEdges g) (r, unat vid)"
proof (cases "of_nat (fst it) = vid")
  case False
  with assms show ?thesis
    by (auto simp: push_entry_def Let_def bindE_eq_Inr mk_ADEdge_def split: if_splits
        dest!: PushEdge_column [where vid = vid and r = r])
next
  case True
  with assms show ?thesis
    by (auto simp: push_entry_def Let_def bindE_eq_Inr mk_ADEdge_def split: if_splits
        dest!: AddSoEdge_column [where vid = vid and r = r])
qed

lemma push_entries_column:
  "push_entries vid f1 f2 its g = Inr g' \<Longrightarrow> to f1 \<noteq> vid \<Longrightarrow>
     entries (soEdges g') (r, unat vid) = entries (soEdges g) (r, unat vid)"
  by (induction its arbitrary: g) (auto simp: bindE_eq_Inr dest: push_entry_column)

lemma push_entries_iterator:
  assumes "push_entries vid f1 f2 its g = Inr g'" "to f1 \<noteq> vid"
  shows "InnerIterator (soEdges g') (unat vid) = InnerIterator (soEdges g) (unat vid)"
  using push_entries_column [OF assms] push_entries_dims [OF assms(1)]
  by (simp add: InnerIterator_def)

section \<open>The zero-adjoint case\<close>

text \<open>
  Claim C7. When the sweep visits a non-leaf vertex whose adjoint \<open>w\<close> is zero, the
  creation step and the adjoint update are skipped: the visit is exactly the push of the
  stored second-order coefficients of the vertex's column, and it leaves every vertex
  record (so every adjoint, the vertex's own and its parents') unchanged.
\<close>

theorem zero_adjoint_skips:
  assumes "unat vid < length (vertices g)"
    and "to (e1 (vertices g ! unat vid)) \<noteq> vid"
    and "w (vertices g ! unat vid) = 0"
  shows "visit vid g =
           bindE (InnerIterator (soEdges g) (unat vid))
             (\<lambda>its. push_entries vid (e1 (vertices g ! unat vid)) (e2 (vertices g ! unat vid)) its g) \<and>
         (\<forall>g'. visit vid g = Inr g' \<longrightarrow> vertices g' = vertices g)"
proof -
  let ?v = "vertices g ! unat vid"
  have *: "create_and_adjoint vid g1 = Inr g1"
    if "push_entries vid (e1 ?v) (e2 ?v) its g = Inr g1" for its g1
    using push_entries_vertices [OF that] assms(3) by (simp add: create_and_adjoint_def)
  have eq: "visit vid g =
           bindE (InnerIterator (soEdges g) (unat vid))
             (\<lambda>its. push_entries vid (e1 ?v) (e2 ?v) its g)"
  proof (cases "InnerIterator (soEdges g) (unat vid)")
    case (Inl e)
    then show ?thesis using assms by (simp add: visit_def)
  next
    case (Inr its)
    show ?thesis
    proof (cases "push_entries vid (e1 ?v) (e2 ?v) its g")
      case (Inl e)
      then show ?thesis using assms Inr by (simp add: visit_def)
    next
      case r: (Inr g1)
      then show ?thesis using assms Inr * [OF r] by (simp add: visit_def)
    qed
  qed
  have "vertices g' = vertices g" if "visit vid g = Inr g'" for g'
    using that unfolding eq by (auto simp: bindE_eq_Inr dest: push_entries_vertices)
  with eq show ?thesis by blast
qed

theorem zero_adjoint_skips_witness:
  "unat (1 :: VertexId) < length (vertices tape_square_diag) \<and>
   to (e1 (vertices tape_square_diag ! unat (1 :: VertexId))) \<noteq> 1 \<and>
   w (vertices tape_square_diag ! unat (1 :: VertexId)) = 0 \<and>
   visit 1 tape_square_diag =
     Inr (tape_square_diag\<lparr>soEdges :=
            \<lparr>rows = 2, cols = 2, entries = [(1, 1) \<mapsto> 1, (0, 0) \<mapsto> 100]\<rparr>\<rparr>) \<and>
   vertices (tape_square_diag\<lparr>soEdges :=
            \<lparr>rows = 2, cols = 2, entries = [(1, 1) \<mapsto> 1, (0, 0) \<mapsto> 100]\<rparr>\<rparr>) =
     vertices tape_square_diag"
  using zero_adjoint_skips [of 1 tape_square_diag]
  by (simp add: tape_defs mk_ADVertex_def mk_ADEdge_def InnerIterator_def List.map_filter_def
      upt_numeral_unfold push_entry_def AddSoEdge_def coeffRef_def coeff_def Let_def)

section \<open>Canonical index pairs\<close>

lemma unat_min_le_max: "unat (min i j) \<le> unat (max (i::'a::len word) j)"
  by (simp add: min_def max_def word_le_nat_alt)

lemma upper_triangular_upd:
  "upper_triangular m \<Longrightarrow> r \<le> c \<Longrightarrow>
     upper_triangular (m\<lparr>entries := (entries m)((r, c) \<mapsto> x)\<rparr>)"
  by (auto simp: upper_triangular_def)

lemma upper_triangularD: "upper_triangular m \<Longrightarrow> entries m (i, j) = Some x \<Longrightarrow> i \<le> j"
  unfolding upper_triangular_def by (metis domI fst_conv snd_conv)

lemma in_dimsD: "in_dims m \<Longrightarrow> entries m (i, j) = Some x \<Longrightarrow> i < rows m \<and> j < cols m"
  unfolding in_dims_def by (metis domI fst_conv snd_conv)

lemma AddSoEdge_upper:
  "AddSoEdge i j x g = Inr g' \<Longrightarrow> upper_triangular (soEdges g) \<Longrightarrow>
     upper_triangular (soEdges g')"
  by (auto simp: AddSoEdge_Inr intro!: upper_triangular_upd unat_min_le_max)

lemma PushEdge_upper:
  "PushEdge f s g = Inr g' \<Longrightarrow> upper_triangular (soEdges g) \<Longrightarrow>
     upper_triangular (soEdges g')"
  by (auto simp: PushEdge_def split: if_splits dest: AddSoEdge_upper)

lemma push_entry_upper:
  "push_entry vid f1 f2 it g = Inr g' \<Longrightarrow> upper_triangular (soEdges g) \<Longrightarrow>
     upper_triangular (soEdges g')"
  by (auto simp: push_entry_def Let_def bindE_eq_Inr split: if_splits
      dest: AddSoEdge_upper PushEdge_upper)

lemma push_entries_upper:
  "push_entries vid f1 f2 its g = Inr g' \<Longrightarrow> upper_triangular (soEdges g) \<Longrightarrow>
     upper_triangular (soEdges g')"
  by (induction its arbitrary: g) (auto simp: bindE_eq_Inr dest: push_entry_upper)

lemma creating_upper:
  "creating vid vx a g = Inr g' \<Longrightarrow> upper_triangular (soEdges g) \<Longrightarrow>
     upper_triangular (soEdges g')"
  by (auto simp: creating_def split: if_splits dest: AddSoEdge_upper)

lemma visit_upper:
  "visit vid g = Inr g' \<Longrightarrow> upper_triangular (soEdges g) \<Longrightarrow> upper_triangular (soEdges g')"
  by (auto simp: visit_def create_and_adjoint_def Let_def bindE_eq_Inr split: if_splits
      dest!: push_entries_upper creating_upper adjoint_soEdges)

lemma sweep_upper:
  "sweep vid g = Inr g' \<Longrightarrow> upper_triangular (soEdges g) \<Longrightarrow> upper_triangular (soEdges g')"
proof (induction vid g rule: sweep.induct)
  case (1 vid g)
  show ?case
  proof (cases "vid = 0")
    case True
    with "1.prems" show ?thesis by (simp add: sweep_zero)
  next
    case False
    with "1.prems" obtain g1 where v: "visit vid g = Inr g1" and s: "sweep (vid - 1) g1 = Inr g'"
      by (auto simp: sweep_pos bindE_eq_Inr)
    from False have "0 < vid" by (simp add: word_greater_zero_iff)
    from "1.IH" [OF this s] visit_upper [OF v "1.prems"(2)] show ?thesis .
  qed
qed

lemma PropagateAdjoint_upper:
  assumes "PropagateAdjoint g = Inr g'"
  shows "upper_triangular (soEdges g')"
proof -
  let ?n = "length (vertices g)"
  have "upper_triangular (soEdges (g\<lparr>soEdges := resize (soEdges g) ?n ?n\<rparr>))"
    by (simp add: resize_def upper_triangular_def)
  moreover have "sweep (of_nat ?n - 1) (g\<lparr>soEdges := resize (soEdges g) ?n ?n\<rparr>) = Inr g'"
    using assms by (simp add: PropagateAdjoint_def start_vid_def Let_def)
  ultimately show ?thesis by (rule sweep_upper [rotated])
qed

lemma GetAdjoint2_upper:
  "GetAdjoint2 a b g = Inr (y, g') \<Longrightarrow> upper_triangular (soEdges g) \<Longrightarrow>
     upper_triangular (soEdges g')"
  by (auto simp: GetAdjoint2_def coeffRef_def Let_def split: if_splits option.splits
      intro!: upper_triangular_upd unat_min_le_max)

lemma GetAdjoint2_commute: "GetAdjoint2 a b g = GetAdjoint2 b a g"
  by (simp add: GetAdjoint2_def min.commute max.commute)

text \<open>
  Claim C8. Every write to the accumulator goes to the slot \<open>(min i j, max i j)\<close>:
  \<^verbatim>\<open>AddSoEdge\<close> changes that slot only, and it, the pairwise read and the whole propagation
  keep every stored coefficient on or above the diagonal (after \<^verbatim>\<open>PropagateAdjoint\<close> this
  holds whatever was stored before). The pairwise read is symmetric in its arguments.
\<close>

theorem writes_canonical:
  "(AddSoEdge i j x g = Inr g1 \<longrightarrow>
      entries (soEdges g1) = (entries (soEdges g))((unat (min i j), unat (max i j)) \<mapsto>
         coeff (soEdges g) (unat (min i j)) (unat (max i j)) + x) \<and>
      unat (min i j) \<le> unat (max i j) \<and>
      (upper_triangular (soEdges g) \<longrightarrow> upper_triangular (soEdges g1))) \<and>
   (GetAdjoint2 a b g = Inr (y, g2) \<longrightarrow> upper_triangular (soEdges g) \<longrightarrow>
      upper_triangular (soEdges g2)) \<and>
   (PropagateAdjoint g = Inr g3 \<longrightarrow> upper_triangular (soEdges g3)) \<and>
   GetAdjoint2 a b g = GetAdjoint2 b a g \<and>
   hessian_of a b g = hessian_of b a g"
  using AddSoEdge_upper [of i j x g g1] GetAdjoint2_upper [of a b g y g2]
    PropagateAdjoint_upper [of g g3] GetAdjoint2_commute [of a b g] unat_min_le_max [of i j]
  by (auto simp: AddSoEdge_Inr hessian_of_def)

theorem writes_canonical_witness:
  "AddSoEdge 1 0 3 tape_square_diag =
     Inr (tape_square_diag\<lparr>soEdges :=
            \<lparr>rows = 2, cols = 2, entries = [(1, 1) \<mapsto> 1, (0, 1) \<mapsto> 3]\<rparr>\<rparr>) \<and>
   upper_triangular (soEdges tape_square_diag) \<and>
   upper_triangular \<lparr>rows = 2, cols = 2, entries = [(1, 1) \<mapsto> 1, (0, 1) \<mapsto> 3]\<rparr> \<and>
   GetAdjoint2 \<lparr>val = 25, varId = 1\<rparr> \<lparr>val = 5, varId = 0\<rparr> tape_square_diag =
     Inr (0, tape_square_diag\<lparr>soEdges :=
            \<lparr>rows = 2, cols = 2, entries = [(1, 1) \<mapsto> 1, (0, 1) \<mapsto> 0]\<rparr>\<rparr>) \<and>
   upper_triangular \<lparr>rows = 2, cols = 2, entries = [(1, 1) \<mapsto> 1, (0, 1) \<mapsto> 0]\<rparr> \<and>
   PropagateAdjoint tape_square_diag =
     Inr (tape_square_diag\<lparr>soEdges := \<lparr>rows = 2, cols = 2, entries = Map.empty\<rparr>\<rparr>) \<and>
   upper_triangular \<lparr>rows = 2, cols = 2, entries = Map.empty\<rparr> \<and>
   hessian_of \<lparr>val = 25, varId = 1\<rparr> \<lparr>val = 5, varId = 0\<rparr> tape_square_diag =
     hessian_of \<lparr>val = 5, varId = 0\<rparr> \<lparr>val = 25, varId = 1\<rparr> tape_square_diag"
proof -
  let ?g1 = "tape_square_diag\<lparr>soEdges :=
            \<lparr>rows = 2, cols = 2, entries = [(1, 1) \<mapsto> 1, (0 :: nat, 1 :: nat) \<mapsto> 3 :: Real]\<rparr>\<rparr>"
  let ?g2 = "tape_square_diag\<lparr>soEdges :=
            \<lparr>rows = 2, cols = 2, entries = [(1, 1) \<mapsto> 1, (0 :: nat, 1 :: nat) \<mapsto> 0 :: Real]\<rparr>\<rparr>"
  let ?g3 = "tape_square_diag\<lparr>soEdges := \<lparr>rows = 2, cols = 2, entries = Map.empty\<rparr>\<rparr>"
  have a: "AddSoEdge 1 0 3 tape_square_diag = Inr ?g1"
    by (simp add: tape_defs AddSoEdge_def coeffRef_def coeff_def Let_def)
  have u: "upper_triangular (soEdges tape_square_diag)"
    by (simp add: tape_defs upper_triangular_def)
  have r: "GetAdjoint2 \<lparr>val = 25, varId = 1\<rparr> \<lparr>val = 5, varId = 0\<rparr> tape_square_diag = Inr (0, ?g2)"
    by (simp add: tape_defs GetAdjoint2_def coeffRef_def coeff_def Let_def)
  have p: "PropagateAdjoint tape_square_diag = Inr ?g3"
    by (simp add: tape_defs mk_ADVertex_def mk_ADEdge_def propagate_defs upt_numeral_unfold
        sweep_pos sweep_zero Let_def)
  note c = writes_canonical [of 1 0 3 tape_square_diag ?g1 "\<lparr>val = 25, varId = 1\<rparr>"
      "\<lparr>val = 5, varId = 0\<rparr>" 0 ?g2 ?g3]
  from c a u have u1: "upper_triangular (soEdges ?g1)" by blast
  from c r u have u2: "upper_triangular (soEdges ?g2)" by blast
  from c p have u3: "upper_triangular (soEdges ?g3)" by blast
  from c have h: "hessian_of \<lparr>val = 25, varId = 1\<rparr> \<lparr>val = 5, varId = 0\<rparr> tape_square_diag =
     hessian_of \<lparr>val = 5, varId = 0\<rparr> \<lparr>val = 25, varId = 1\<rparr> tape_square_diag" by blast
  from u1 u2 u3 have "upper_triangular \<lparr>rows = 2, cols = 2, entries = [(1, 1) \<mapsto> 1, (0, 1) \<mapsto> 3]\<rparr>"
    "upper_triangular \<lparr>rows = 2, cols = 2, entries = [(1, 1) \<mapsto> 1, (0, 1) \<mapsto> 0]\<rparr>"
    "upper_triangular \<lparr>rows = 2, cols = 2, entries = Map.empty\<rparr>"
    by simp_all
  with a u r p h show ?thesis by blast
qed

section \<open>The pairwise read\<close>

text \<open>
  Claim C10. The pairwise read \<^verbatim>\<open>GetAdjoint(i, j)\<close> is not a pure read: when nothing is
  stored at the canonical slot it stores an explicit 0 there, which changes the set of
  stored coefficients. It changes the value of no coefficient, and no vertex.
\<close>

theorem read_inserts_zero:
  assumes "GetAdjoint2 a b g = Inr (y, g')"
  shows "(entries (soEdges g) (unat (min (varId a) (varId b)), unat (max (varId a) (varId b))) = None \<longrightarrow>
            y = 0 \<and>
            entries (soEdges g') = (entries (soEdges g))
               ((unat (min (varId a) (varId b)), unat (max (varId a) (varId b))) \<mapsto> 0) \<and>
            dom (entries (soEdges g')) \<noteq> dom (entries (soEdges g))) \<and>
         (\<forall>i j. coeff (soEdges g') i j = coeff (soEdges g) i j) \<and>
         y = coeff (soEdges g) (unat (min (varId a) (varId b))) (unat (max (varId a) (varId b))) \<and>
         vertices g' = vertices g"
proof -
  let ?k = "(unat (min (varId a) (varId b)), unat (max (varId a) (varId b)))"
  have "dom ((entries (soEdges g))(?k \<mapsto> 0)) \<noteq> dom (entries (soEdges g))"
    if "entries (soEdges g) ?k = None"
  proof -
    from that have "?k \<notin> dom (entries (soEdges g))" by (simp add: domIff)
    moreover have "?k \<in> dom ((entries (soEdges g))(?k \<mapsto> 0))" by simp
    ultimately show ?thesis by metis
  qed
  with assms show ?thesis
    by (auto simp: GetAdjoint2_def coeffRef_def coeff_def Let_def simp del: dom_fun_upd
        split: if_splits option.splits)
qed

theorem read_inserts_zero_witness:
  "GetAdjoint2 \<lparr>val = 5, varId = 0\<rparr> \<lparr>val = 25, varId = 1\<rparr> tape_square_diag =
     Inr (0, tape_square_diag\<lparr>soEdges :=
            \<lparr>rows = 2, cols = 2, entries = [(1, 1) \<mapsto> 1, (0, 1) \<mapsto> 0]\<rparr>\<rparr>) \<and>
   entries (soEdges tape_square_diag) (0, 1) = None \<and>
   dom (entries (soEdges (tape_square_diag\<lparr>soEdges :=
            \<lparr>rows = 2, cols = 2, entries = [(1, 1) \<mapsto> 1, (0, 1) \<mapsto> 0]\<rparr>\<rparr>))) \<noteq>
     dom (entries (soEdges tape_square_diag)) \<and>
   coeff (soEdges (tape_square_diag\<lparr>soEdges :=
            \<lparr>rows = 2, cols = 2, entries = [(1, 1) \<mapsto> 1, (0, 1) \<mapsto> 0]\<rparr>\<rparr>)) 0 1 =
     coeff (soEdges tape_square_diag) 0 1"
proof -
  let ?g2 = "tape_square_diag\<lparr>soEdges :=
            \<lparr>rows = 2, cols = 2, entries = [(1, 1) \<mapsto> 1, (0 :: nat, 1 :: nat) \<mapsto> 0 :: Real]\<rparr>\<rparr>"
  have r: "GetAdjoint2 \<lparr>val = 5, varId = 0\<rparr> \<lparr>val = 25, varId = 1\<rparr> tape_square_diag = Inr (0, ?g2)"
    by (simp add: tape_defs GetAdjoint2_def coeffRef_def coeff_def Let_def)
  have n: "entries (soEdges tape_square_diag) (0, 1) = None"
    by (simp add: tape_defs)
  note c = read_inserts_zero [OF r]
  from c n have d: "dom (entries (soEdges ?g2)) \<noteq> dom (entries (soEdges tape_square_diag))"
    by (simp add: tape_defs)
  from c have e: "coeff (soEdges ?g2) 0 1 = coeff (soEdges tape_square_diag) 0 1"
    by (simp add: tape_defs)
  from r n d e show ?thesis by (intro conjI)
qed

section \<open>Edges point backward\<close>

lemma unat_of_nat_id: "n < 2 ^ 32 \<Longrightarrow> unat (of_nat n :: VertexId) = n"
  by (simp add: unat_of_nat)

lemma record_unary:
  assumes "length (vertices g) < 2 ^ 32" "NewAReal x g = (ret, g1)"
  shows "AddEdge1 ret p wt s g1 =
           Inr (appended g \<lparr>e1 = mk_ADEdge (varId p) wt,
                            e2 = mk_ADEdge (of_nat (length (vertices g))) 0, w = 0, soW = s\<rparr>)"
    and "ret = \<lparr>val = x, varId = of_nat (length (vertices g))\<rparr>"
  using assms
  by (auto simp: NewAReal_def AddEdge1_def Let_def unat_of_nat_id mk_ADVertex_def appended_def)

lemma record_binary:
  assumes "length (vertices g) < 2 ^ 32" "NewAReal x g = (ret, g1)"
  shows "AddEdge2 ret p1 p2 wt1 wt2 s g1 =
           Inr (appended g \<lparr>e1 = mk_ADEdge (varId p1) wt1,
                            e2 = mk_ADEdge (varId p2) wt2, w = 0, soW = s\<rparr>)"
  using assms
  by (auto simp: NewAReal_def AddEdge2_def Let_def unat_of_nat_id mk_ADVertex_def appended_def)

lemma edges_backward_appended:
  assumes "edges_backward g" "length (vertices g) < 2 ^ 32"
    and "to (e1 vx) = of_nat (length (vertices g)) \<or> unat (to (e1 vx)) < length (vertices g)"
    and "to (e2 vx) = of_nat (length (vertices g)) \<or>
           unat (to (e2 vx)) < length (vertices g) \<and> unat (to (e1 vx)) < length (vertices g)"
  shows "edges_backward (appended g vx)"
proof -
  let ?n = "length (vertices g)"
  have ne: "t \<noteq> (of_nat ?n :: VertexId)" if "unat t < ?n" for t
    using that assms(2) by (auto simp: unat_of_nat_id)
  have "(to (e1 ((vertices g @ [vx]) ! v)) \<noteq> of_nat v \<longrightarrow> unat (to (e1 ((vertices g @ [vx]) ! v))) < v) \<and>
        (to (e2 ((vertices g @ [vx]) ! v)) \<noteq> of_nat v \<longrightarrow> unat (to (e2 ((vertices g @ [vx]) ! v))) < v) \<and>
        (to (e2 ((vertices g @ [vx]) ! v)) \<noteq> of_nat v \<longrightarrow> to (e1 ((vertices g @ [vx]) ! v)) \<noteq> of_nat v)"
    if "v < Suc ?n" for v
  proof (cases "v < ?n")
    case True
    then show ?thesis using assms(1) by (simp add: edges_backward_def nth_append)
  next
    case False
    with that have "v = ?n" by simp
    then show ?thesis using assms(3,4) ne by (auto simp: nth_append)
  qed
  then show ?thesis by (simp add: edges_backward_def appended_def)
qed


lemma unary_step:
  assumes "bindE (AddEdge1 (fst (NewAReal x g)) p wt s (snd (NewAReal x g)))
             (\<lambda>g2. Inr (fst (NewAReal x g), g2)) = Inr (ret, g')"
  shows "length (vertices g') = Suc (length (vertices g))"
    and "length (vertices g') \<le> 2 ^ 32 \<Longrightarrow> edges_backward g \<Longrightarrow> on_tape g p \<Longrightarrow>
           edges_backward g' \<and> on_tape g' ret"
proof -
  obtain r g1 where n: "NewAReal x g = (r, g1)" by (cases "NewAReal x g")
  with assms have a: "AddEdge1 r p wt s g1 = Inr g'" and r: "ret = r"
    by (auto simp: bindE_eq_Inr)
  from n a show len: "length (vertices g') = Suc (length (vertices g))"
    by (auto simp: NewAReal_def AddEdge1_def Let_def split: if_splits)
  assume b: "length (vertices g') \<le> 2 ^ 32" and eb: "edges_backward g" and p: "on_tape g p"
  from b len have lt: "length (vertices g) < 2 ^ 32" by simp
  note u = record_unary [OF lt n]
  from u(1) [of p wt s] a have g': "g' = appended g \<lparr>e1 = mk_ADEdge (varId p) wt,
      e2 = mk_ADEdge (of_nat (length (vertices g))) 0, w = 0, soW = s\<rparr>" by simp
  have "edges_backward g'" unfolding g'
    using p by (intro edges_backward_appended [OF eb lt]) (simp_all add: mk_ADEdge_def on_tape_def)
  moreover have "on_tape g' ret"
    using r u(2) lt by (simp add: g' on_tape_def appended_def unat_of_nat_id)
  ultimately show "edges_backward g' \<and> on_tape g' ret" ..
qed

lemma binary_step:
  assumes "bindE (AddEdge2 (fst (NewAReal x g)) p1 p2 wt1 wt2 s (snd (NewAReal x g)))
             (\<lambda>g2. Inr (fst (NewAReal x g), g2)) = Inr (ret, g')"
  shows "length (vertices g') = Suc (length (vertices g))"
    and "length (vertices g') \<le> 2 ^ 32 \<Longrightarrow> edges_backward g \<Longrightarrow> on_tape g p1 \<Longrightarrow>
           on_tape g p2 \<Longrightarrow> edges_backward g' \<and> on_tape g' ret"
proof -
  obtain r g1 where n: "NewAReal x g = (r, g1)" by (cases "NewAReal x g")
  with assms have a: "AddEdge2 r p1 p2 wt1 wt2 s g1 = Inr g'" and r: "ret = r"
    by (auto simp: bindE_eq_Inr)
  from n a show len: "length (vertices g') = Suc (length (vertices g))"
    by (auto simp: NewAReal_def AddEdge2_def Let_def split: if_splits)
  assume b: "length (vertices g') \<le> 2 ^ 32" and eb: "edges_backward g"
    and p: "on_tape g p1" "on_tape g p2"
  from b len have lt: "length (vertices g) < 2 ^ 32" by simp
  from record_binary [OF lt n, of p1 p2 wt1 wt2 s] a have g': "g' = appended g \<lparr>e1 = mk_ADEdge (varId p1) wt1,
      e2 = mk_ADEdge (varId p2) wt2, w = 0, soW = s\<rparr>" by simp
  have "edges_backward g'" unfolding g'
    using p by (intro edges_backward_appended [OF eb lt]) (simp_all add: mk_ADEdge_def on_tape_def)
  moreover have "on_tape g' ret"
    using r record_unary(2) [OF lt n] lt by (simp add: g' on_tape_def appended_def unat_of_nat_id)
  ultimately show "edges_backward g' \<and> on_tape g' ret" ..
qed

lemma leaf_step:
  assumes "NewAReal x g = (ret, g')"
  shows "length (vertices g') = Suc (length (vertices g))"
    and "length (vertices g') \<le> 2 ^ 32 \<Longrightarrow> edges_backward g \<Longrightarrow> edges_backward g'"
proof -
  from assms show len: "length (vertices g') = Suc (length (vertices g))"
    by (auto simp: NewAReal_def Let_def)
  assume b: "length (vertices g') \<le> 2 ^ 32" and eb: "edges_backward g"
  from b len have lt: "length (vertices g) < 2 ^ 32" by simp
  from assms have "g' = appended g (mk_ADVertex (of_nat (length (vertices g))))"
    by (auto simp: NewAReal_def Let_def appended_def)
  then show "edges_backward g'"
    using edges_backward_appended [OF eb lt, of "mk_ADVertex (of_nat (length (vertices g)))"]
    by (simp add: mk_ADVertex_def mk_ADEdge_def)
qed

lemma on_tape_mono:
  "on_tape g p \<Longrightarrow> length (vertices g) \<le> length (vertices g') \<Longrightarrow> on_tape g' p"
  by (simp add: on_tape_def)

lemmas unary_defs =
  operator_add_R_def operator_R_add_def operator_sub_R_def operator_R_sub_def
  operator_mul_R_def operator_R_mul_def Inv_def operator_div_R_def sqrt_A_def pow_A_def
  exp_A_def log_A_def sin_A_def cos_A_def tan_A_def asin_A_def acos_A_def

lemmas binary_defs = operator_add_def operator_sub_def operator_mul_def

lemma div_step:
  assumes "bindE (Inv r g) (\<lambda>(ir, g1). f ir g1) = Inr (ret, g')"
    and f: "\<And>ir g1. f ir g1 = Inr (ret, g') \<Longrightarrow> length (vertices g') = Suc (length (vertices g1)) \<and>
        (length (vertices g') \<le> 2 ^ 32 \<longrightarrow> edges_backward g1 \<longrightarrow> on_tape g1 ir \<longrightarrow> Q g1 \<longrightarrow>
           edges_backward g')"
    and q: "\<And>g1. length (vertices g) \<le> length (vertices g1) \<Longrightarrow> P \<Longrightarrow> Q g1"
  shows "length (vertices g) < length (vertices g')"
    and "length (vertices g') \<le> 2 ^ 32 \<Longrightarrow> edges_backward g \<Longrightarrow> on_tape g r \<Longrightarrow> P \<Longrightarrow>
           edges_backward g'"
proof -
  from assms(1) obtain ir g1 where i: "Inv r g = Inr (ir, g1)" and m: "f ir g1 = Inr (ret, g')"
    by (auto simp: bindE_eq_Inr)
  from i have i': "bindE (AddEdge1 (fst (NewAReal (1 / val r) g)) r (- (1 / val r * (1 / val r)))
      (2 * (1 / val r * (1 / val r) * (1 / val r))) (snd (NewAReal (1 / val r) g)))
      (\<lambda>g2. Inr (fst (NewAReal (1 / val r) g), g2)) = Inr (ir, g1)"
    by (simp add: Inv_def Let_def split_def)
  note l1 = unary_step(1) [OF i'] and l2 = f [OF m, THEN conjunct1]
  from l1 l2 show "length (vertices g) < length (vertices g')" by simp
  assume b: "length (vertices g') \<le> 2 ^ 32" and eb: "edges_backward g" and p: "on_tape g r" and P
  from b l2 have "length (vertices g1) \<le> 2 ^ 32" by simp
  from unary_step(2) [OF i' this eb p] have 1: "edges_backward g1" "on_tape g1 ir" by simp_all
  from q [of g1] l1 \<open>P\<close> have "Q g1" by simp
  with f [OF m, THEN conjunct2] b 1 show "edges_backward g'" by simp
qed

lemma apply_op_step:
  assumes "apply_op opn g = Inr (ret, g')" "list_all (on_tape g) (operands opn)"
  shows "length (vertices g) < length (vertices g') \<and>
         (length (vertices g') \<le> 2 ^ 32 \<longrightarrow> edges_backward g \<longrightarrow> edges_backward g')"
proof (cases opn)
  case (Leaf x)
  with assms leaf_step [of x g ret g'] show ?thesis by simp
next
  case (Add l r)
  with assms binary_step [of "val l + val r" g l r 1 1 0 ret g'] show ?thesis
    by (simp add: binary_defs Let_def split_def)
next
  case (Sub l r)
  with assms binary_step [of "val l - val r" g l r 1 "- 1" 0 ret g'] show ?thesis
    by (simp add: binary_defs Let_def split_def)
next
  case (Mul l r)
  with assms binary_step [of "val l * val r" g l r "val r" "val l" 1 ret g'] show ?thesis
    by (simp add: binary_defs Let_def split_def)
next
  case (Div l r)
  have "length (vertices g'') = Suc (length (vertices g1)) \<and>
        (length (vertices g'') \<le> 2 ^ 32 \<longrightarrow> edges_backward g1 \<longrightarrow> on_tape g1 ir \<longrightarrow> on_tape g1 l \<longrightarrow>
           edges_backward g'')" if "operator_mul l ir g1 = Inr (ret, g'')" for ir g1 g''
    using that binary_step [of "val l * val ir" g1 l ir "val ir" "val l" 1 ret g'']
    by (simp add: binary_defs Let_def split_def)
  from div_step [of r g "operator_mul l" ret g' "\<lambda>g1. on_tape g1 l" "on_tape g l", OF _ this]
    assms Div on_tape_mono [of g l]
  show ?thesis by (simp add: operator_div_def)
next
  case (RDiv l r)
  have "length (vertices g'') = Suc (length (vertices g1)) \<and>
        (length (vertices g'') \<le> 2 ^ 32 \<longrightarrow> edges_backward g1 \<longrightarrow> on_tape g1 ir \<longrightarrow> True \<longrightarrow>
           edges_backward g'')" if "operator_R_mul l ir g1 = Inr (ret, g'')" for ir g1 g''
    using that unary_step [of "val ir * l" g1 ir l 0 ret g'']
    by (simp add: unary_defs Let_def split_def)
  from div_step [of r g "operator_R_mul l" ret g' "\<lambda>g1. True" True, OF _ this]
    assms RDiv
  show ?thesis by (simp add: operator_R_div_def)
qed (use assms in \<open>auto simp: unary_defs Let_def split_def dest: unary_step\<close>)

text \<open>
  Claim C6. On every tape built from a fresh one by leaf creations and recorded
  operations on scalars of the tape, as long as the tape holds at most \<open>2^32\<close> vertices
  (every vertex has an id of its own), each vertex \<open>v\<close> satisfies: an \<open>e1\<close> that is not
  the self-sentinel points below \<open>v\<close>, an \<open>e2\<close> that is not the self-sentinel points
  below \<open>v\<close>, and \<open>e2\<close> exists only if \<open>e1\<close> does.
\<close>

theorem recorded_backward:
  "recorded g \<Longrightarrow> length (vertices g) \<le> 2 ^ 32 \<Longrightarrow> edges_backward g"
proof (induction rule: recorded.induct)
  case fresh
  show ?case by (simp add: edges_backward_def new_ADGraph_def)
next
  case (step g opn ret g')
  from apply_op_step [OF step.hyps(3) step.hyps(2)] step.prems step.IH
  show ?case by simp
qed

theorem recorded_backward_witness:
  "recorded tape_square \<and> length (vertices tape_square) \<le> 2 ^ 32 \<and> edges_backward tape_square"
proof -
  have 0: "apply_op (Leaf 5) new_ADGraph =
             Inr (fst (NewAReal 5 new_ADGraph), snd (NewAReal 5 new_ADGraph))"
    by simp
  have 1: "recorded (snd (NewAReal 5 new_ADGraph))"
    by (rule recorded.step [OF recorded.fresh _ 0]) simp
  have 2: "apply_op (Mul \<lparr>val = 5, varId = 0\<rparr> \<lparr>val = 5, varId = 0\<rparr>) (snd (NewAReal 5 new_ADGraph)) =
             Inr (\<lparr>val = 25, varId = 1\<rparr>, tape_square)"
    by (simp add: operator_mul_def record_defs tape_defs Let_def)
  have r: "recorded tape_square"
    by (rule recorded.step [OF 1 _ 2]) (simp add: on_tape_def record_defs)
  have l: "length (vertices tape_square) \<le> 2 ^ 32" by (simp add: tape_defs)
  from recorded_backward [OF r l] r l show ?thesis by (intro conjI)
qed

subsection \<open>Recorded tapes have their edges in range\<close>

lemma edges_backward_in_range:
  assumes "edges_backward g" "length (vertices g) \<le> 2 ^ 32"
  shows "edges_in_range g"
proof -
  have "unat (to (e1 vx)) < length (vertices g) \<and> unat (to (e2 vx)) < length (vertices g)"
    if "vx \<in> set (vertices g)" for vx
  proof -
    from that obtain v where v: "v < length (vertices g)" "vx = vertices g ! v"
      by (auto simp: in_set_conv_nth)
    with assms(2) have u: "unat (of_nat v :: VertexId) = v" by (simp add: unat_of_nat_id)
    from assms(1) v(1)
    have b: "(to (e1 (vertices g ! v)) \<noteq> of_nat v \<longrightarrow> unat (to (e1 (vertices g ! v))) < v) \<and>
             (to (e2 (vertices g ! v)) \<noteq> of_nat v \<longrightarrow> unat (to (e2 (vertices g ! v))) < v)"
      by (simp add: edges_backward_def)
    have "unat (to (e1 vx)) \<le> v"
      using b u v(2) by (cases "to (e1 vx) = of_nat v") auto
    moreover have "unat (to (e2 vx)) \<le> v"
      using b u v(2) by (cases "to (e2 vx) = of_nat v") auto
    ultimately show ?thesis using v(1) by simp
  qed
  then show ?thesis by (simp add: edges_in_range_def)
qed

lemma recorded_in_range:
  assumes "recorded g" "length (vertices g) \<le> 2 ^ 32"
  shows "edges_in_range g"
proof -
  from assms have "edges_backward g"
  proof (induction rule: recorded.induct)
    case fresh
    show ?case by (simp add: edges_backward_def new_ADGraph_def)
  next
    case (step g opn ret g')
    from apply_op_step [OF step.hyps(3) step.hyps(2)] step.prems step.IH
    show ?case by simp
  qed
  then show ?thesis using assms(2) by (rule edges_backward_in_range)
qed

subsection \<open>Beyond \<open>2^32\<close> vertices\<close>

lemma leaves_Suc: "NewAReal x (leaves n) = (\<lparr>val = x, varId = of_nat n\<rparr>, leaves (Suc n))"
  by (simp add: NewAReal_def leaves_def mk_ADVertex_def Let_def)

lemma recorded_leaves: "recorded (leaves n)"
proof (induction n)
  case 0
  show ?case using recorded.fresh by (simp add: leaves_def new_ADGraph_def)
next
  case (Suc n)
  have "apply_op (Leaf 0) (leaves n) = Inr (\<lparr>val = 0, varId = of_nat n\<rparr>, leaves (Suc n))"
    by (simp add: leaves_Suc)
  from recorded.step [OF Suc.IH _ this] show ?case by simp
qed

lemma add_after_wrap:
  assumes "0 < n" "of_nat n = (0 :: VertexId)"
  shows "apply_op (Add p p) (leaves n) =
           Inr (\<lparr>val = val p + val p, varId = 0\<rparr>,
                (leaves n)\<lparr>vertices := (vertices (leaves n) @ [mk_ADVertex 0])
                   [0 := \<lparr>e1 = mk_ADEdge (varId p) 1, e2 = mk_ADEdge (varId p) 1, w = 0, soW = 0\<rparr>]\<rparr>)"
proof -
  have n: "NewAReal x (leaves n) = (\<lparr>val = x, varId = 0\<rparr>, appended (leaves n) (mk_ADVertex 0))"
    for x
    using assms(2) by (simp add: NewAReal_def appended_def Let_def leaves_def)
  have z: "(vertices (leaves n) @ [mk_ADVertex 0]) ! 0 = mk_ADVertex 0"
    using assms(1) by (simp add: leaves_def nth_append)
  show ?thesis
    using assms(1) z
    by (simp add: operator_add_def n AddEdge2_def appended_def Let_def mk_ADVertex_def)
qed

text \<open>
  With \<open>2^32\<close> leaves on the tape the next id wraps to 0: the sum \<open>x + x\<close> of the leaf
  with id 1 writes its edges into vertex 0, which then points forward.
\<close>

theorem wrapped_id_points_forward:
  "recorded overflow_tape \<and> length (vertices overflow_tape) = 2 ^ 32 + 1 \<and>
   to (e1 (vertices overflow_tape ! 0)) = 1 \<and> \<not> edges_backward overflow_tape"
proof -
  have w: "of_nat (2 ^ 32) = (0 :: VertexId)" by simp
  have a: "apply_op (Add \<lparr>val = 0, varId = 1\<rparr> \<lparr>val = 0, varId = 1\<rparr>) (leaves (2 ^ 32)) =
             Inr (\<lparr>val = 0, varId = 0\<rparr>, overflow_tape)"
    using add_after_wrap [OF _ w, of "\<lparr>val = 0, varId = 1\<rparr>"]
    by (simp add: overflow_tape_def mk_ADEdge_def)
  have o: "list_all (on_tape (leaves (2 ^ 32)))
             (operands (Add \<lparr>val = 0, varId = 1\<rparr> \<lparr>val = 0, varId = 1\<rparr>))"
    by (simp add: on_tape_def leaves_def)
  have r: "recorded overflow_tape" by (rule recorded.step [OF recorded_leaves o a])
  have l: "length (vertices overflow_tape) = 2 ^ 32 + 1"
    by (simp add: overflow_tape_def leaves_def)
  have e: "to (e1 (vertices overflow_tape ! 0)) = 1"
    by (simp add: overflow_tape_def leaves_def)
  have "\<not> edges_backward overflow_tape"
  proof
    assume "edges_backward overflow_tape"
    moreover have "0 \<in> {0..<length (vertices overflow_tape)}" using l by simp
    ultimately have "to (e1 (vertices overflow_tape ! 0)) \<noteq> of_nat 0 \<longrightarrow>
        unat (to (e1 (vertices overflow_tape ! 0))) < 0"
      unfolding edges_backward_def by blast
    with e show False by simp
  qed
  with r l e show ?thesis by (intro conjI)
qed

section \<open>Safety of the sweep\<close>

lemma unat_min_less: "unat i < n \<Longrightarrow> unat j < n \<Longrightarrow> unat (min i (j::'a::len word)) < n"
  by (simp add: min_def)

lemma unat_max_less: "unat i < n \<Longrightarrow> unat j < n \<Longrightarrow> unat (max i (j::'a::len word)) < n"
  by (simp add: max_def)

lemma AddSoEdge_ok:
  "unat i < rows (soEdges g) \<Longrightarrow> unat j < rows (soEdges g) \<Longrightarrow>
   cols (soEdges g) = rows (soEdges g) \<Longrightarrow> \<exists>g'. AddSoEdge i j x g = Inr g'"
  by (simp add: AddSoEdge_Inr unat_min_less unat_max_less)

lemma PushEdge_ok:
  "unat (to f) < rows (soEdges g) \<Longrightarrow> unat (to s) < rows (soEdges g) \<Longrightarrow>
   cols (soEdges g) = rows (soEdges g) \<Longrightarrow> \<exists>g'. PushEdge f s g = Inr g'"
  by (simp add: PushEdge_def AddSoEdge_ok)

lemma unat_of_nat_le: "unat (of_nat k :: 'a::len word) \<le> k"
  by (simp add: unat_of_nat)

lemma push_entry_ok:
  assumes "unat (to f1) < rows (soEdges g)" "unat (to f2) < rows (soEdges g)"
    "fst it < rows (soEdges g)" "cols (soEdges g) = rows (soEdges g)"
  shows "\<exists>g'. push_entry vid f1 f2 it g = Inr g'"
proof -
  let ?s = "mk_ADEdge (of_nat (fst it)) (snd it)"
  have s: "unat (to ?s) < rows (soEdges g)"
    using assms(3) unat_of_nat_le [of "fst it", where 'a=32]
    by (simp add: mk_ADEdge_def)
  show ?thesis
  proof (cases "to ?s \<noteq> vid")
    case True
    from PushEdge_ok [OF assms(1) s assms(4)] obtain g1 where 1: "PushEdge f1 ?s g = Inr g1"
      by blast
    from PushEdge_dims [OF 1] assms s PushEdge_ok [of f2 g1 ?s]
    obtain g2 where "PushEdge f2 ?s g1 = Inr g2" by auto
    with 1 True show ?thesis by (simp add: push_entry_def Let_def)
  next
    case False
    from AddSoEdge_ok [OF assms(1) assms(1) assms(4)]
    obtain g1 where 1: "AddSoEdge (to f1) (to f1) (ew f1 * ew f1 * ew ?s) g = Inr g1"
      by blast
    note d1 = AddSoEdge_dims [OF 1]
    from AddSoEdge_ok [of "to f2" g1 "to f2"] d1 assms
    obtain g2 where 2: "AddSoEdge (to f2) (to f2) (ew f2 * ew f2 * ew ?s) g1 = Inr g2"
      by auto
    note d2 = AddSoEdge_dims [OF 2]
    from AddSoEdge_ok [of "to f1" g2 "to f2"] d1 d2 assms
    have "\<exists>g3. AddSoEdge (to f1) (to f2) y g2 = Inr g3" for y
      by auto
    with 1 2 False show ?thesis by (simp add: push_entry_def Let_def)
  qed
qed

lemma push_entries_ok:
  assumes "unat (to f1) < rows (soEdges g)" "unat (to f2) < rows (soEdges g)"
    "\<forall>it \<in> set its. fst it < rows (soEdges g)" "cols (soEdges g) = rows (soEdges g)"
  shows "\<exists>g'. push_entries vid f1 f2 its g = Inr g'"
  using assms
proof (induction its arbitrary: g)
  case Nil
  show ?case by simp
next
  case (Cons it its)
  from push_entry_ok [of f1 g f2 it vid] Cons.prems
  obtain g1 where 1: "push_entry vid f1 f2 it g = Inr g1" by auto
  note d = push_entry_dims [OF 1]
  from Cons.IH [of g1] Cons.prems d obtain g' where "push_entries vid f1 f2 its g1 = Inr g'"
    by auto
  with 1 show ?case by simp
qed

lemma InnerIterator_rows:
  "InnerIterator m c = Inr its \<Longrightarrow> it \<in> set its \<Longrightarrow> fst it < rows m"
  by (auto simp: InnerIterator_def List.map_filter_def split: if_splits)

lemma creating_ok:
  "unat (to (e1 vx)) < rows (soEdges g) \<Longrightarrow> unat (to (e2 vx)) < rows (soEdges g) \<Longrightarrow>
   cols (soEdges g) = rows (soEdges g) \<Longrightarrow> \<exists>g'. creating vid vx a g = Inr g'"
  by (simp add: creating_def AddSoEdge_ok)

lemma edges_in_range_set_w:
  assumes "edges_in_range g" "i < length (vertices g)"
  shows "edges_in_range (g\<lparr>vertices := (vertices g)[i := (vertices g ! i)\<lparr>w := x\<rparr>]\<rparr>)"
proof -
  have "unat (to (e1 v)) < length (vertices g) \<and> unat (to (e2 v)) < length (vertices g)"
    if "v \<in> set ((vertices g)[i := (vertices g ! i)\<lparr>w := x\<rparr>])" for v
  proof -
    from that set_update_subset_insert [of "vertices g" i]
    have "v = (vertices g ! i)\<lparr>w := x\<rparr> \<or> v \<in> set (vertices g)" by auto
    then show ?thesis
    proof
      assume "v = (vertices g ! i)\<lparr>w := x\<rparr>"
      moreover from assms(2) have "vertices g ! i \<in> set (vertices g)" by simp
      ultimately show ?thesis using assms(1) by (auto simp: edges_in_range_def)
    next
      assume "v \<in> set (vertices g)"
      then show ?thesis using assms(1) by (auto simp: edges_in_range_def)
    qed
  qed
  then show ?thesis by (simp add: edges_in_range_def)
qed

lemma add_w_ok:
  assumes "unat i < length (vertices g)" "edges_in_range g"
  shows "\<exists>g'. add_w i x g = Inr g' \<and> length (vertices g') = length (vertices g) \<and>
           soEdges g' = soEdges g \<and> edges_in_range g'"
  using assms edges_in_range_set_w [OF assms(2) assms(1)] by (simp add: add_w_def)

lemma adjoint_ok:
  assumes "unat vid < length (vertices g)" "edges_in_range g"
    "unat (to (e1 vx)) < length (vertices g)" "unat (to (e2 vx)) < length (vertices g)"
  shows "\<exists>g'. adjoint vid vx a g = Inr g' \<and> length (vertices g') = length (vertices g) \<and>
           soEdges g' = soEdges g \<and> edges_in_range g'"
proof -
  let ?g0 = "g\<lparr>vertices := (vertices g)[unat vid := (vertices g ! unat vid)\<lparr>w := 0\<rparr>]\<rparr>"
  have 0: "edges_in_range ?g0" "length (vertices ?g0) = length (vertices g)" "soEdges ?g0 = soEdges g"
    using edges_in_range_set_w [OF assms(2) assms(1)] by simp_all
  from add_w_ok [of "to (e1 vx)" ?g0 "a * ew (e1 vx)"] 0 assms(3)
  obtain g1 where 1: "add_w (to (e1 vx)) (a * ew (e1 vx)) ?g0 = Inr g1"
    "length (vertices g1) = length (vertices g)" "soEdges g1 = soEdges g" "edges_in_range g1"
    by auto
  from add_w_ok [of "to (e2 vx)" g1 "a * ew (e2 vx)"] 1 assms(4)
  obtain g2 where 2: "add_w (to (e2 vx)) (a * ew (e2 vx)) g1 = Inr g2"
    "length (vertices g2) = length (vertices g)" "soEdges g2 = soEdges g" "edges_in_range g2"
    by auto
  from 1 2 show ?thesis by (simp add: adjoint_def Let_def)
qed

lemma visit_ok:
  assumes "safe_state n g" "unat vid < n"
  shows "\<exists>g'. visit vid g = Inr g' \<and> safe_state n g'"
proof -
  let ?vx = "vertices g ! unat vid"
  from assms have len: "length (vertices g) = n" and r: "rows (soEdges g) = n"
    and c: "cols (soEdges g) = n" and eir: "edges_in_range g"
    by (simp_all add: safe_state_def)
  from assms(2) len have mem: "?vx \<in> set (vertices g)" by simp
  with eir len have t1: "unat (to (e1 ?vx)) < n" and t2: "unat (to (e2 ?vx)) < n"
    by (auto simp: edges_in_range_def)
  show ?thesis
  proof (cases "to (e1 ?vx) = vid")
    case True
    with assms len show ?thesis by (simp add: visit_def)
  next
    case False
    from assms(2) c obtain its where it: "InnerIterator (soEdges g) (unat vid) = Inr its"
      by (simp add: InnerIterator_def)
    from push_entries_ok [of "e1 ?vx" g "e2 ?vx" its vid] t1 t2 r c InnerIterator_rows [OF it]
    obtain g1 where p: "push_entries vid (e1 ?vx) (e2 ?vx) its g = Inr g1" by auto
    note v1 = push_entries_vertices [OF p] and d1 = push_entries_dims [OF p]
    have s1: "safe_state n g1"
      using assms(1) v1 d1 by (auto simp: safe_state_def edges_in_range_def)
    show ?thesis
    proof (cases "w ?vx = 0")
      case True
      with False assms(2) len it p v1 s1 show ?thesis
        by (simp add: visit_def create_and_adjoint_def)
    next
      case nz: False
      from creating_ok [of ?vx g1 vid "w ?vx"] t1 t2 d1 r c
      obtain g2 where cr: "creating vid ?vx (w ?vx) g1 = Inr g2" by auto
      note v2 = creating_vertices [OF cr] and d2 = creating_dims [OF cr]
      have eir2: "edges_in_range g2" using eir v1 v2 by (simp add: edges_in_range_def)
      from adjoint_ok [of vid g2 ?vx "w ?vx"] eir2 v1 v2 len assms(2) t1 t2
      obtain g3 where ad: "adjoint vid ?vx (w ?vx) g2 = Inr g3"
        "length (vertices g3) = length (vertices g)" "soEdges g3 = soEdges g2" "edges_in_range g3"
        by auto
      have "safe_state n g3" using ad len d1 d2 r c by (simp add: safe_state_def)
      moreover have "visit vid g = Inr g3"
        using False assms(2) len it p v1 v2 nz cr ad(1)
        by (simp add: visit_def create_and_adjoint_def)
      ultimately show ?thesis by blast
    qed
  qed
qed

lemma sweep_ok:
  "safe_state n g \<Longrightarrow> unat vid < n \<Longrightarrow> \<exists>g'. sweep vid g = Inr g'"
proof (induction vid g rule: sweep.induct)
  case (1 vid g)
  show ?case
  proof (cases "vid = 0")
    case True
    then show ?thesis by (simp add: sweep_zero)
  next
    case False
    from visit_ok [OF "1.prems"] obtain g1 where v: "visit vid g = Inr g1" "safe_state n g1"
      by blast
    from False have pos: "0 < vid" by (simp add: word_greater_zero_iff)
    from False have "unat (vid - 1) < unat vid"
      by (simp add: unat_minus_one unat_gt_0 word_greater_zero_iff)
    with "1.prems"(2) have "unat (vid - 1) < n" by simp
    from "1.IH" [OF pos v(2) this] v(1) False show ?thesis by (simp add: sweep_pos)
  qed
qed

lemma start_vid_less:
  assumes "vertices g \<noteq> []"
  shows "unat (start_vid g) < length (vertices g)"
proof -
  let ?n = "length (vertices g)"
  from assms obtain k where k: "?n = Suc k" by (cases "vertices g") auto
  then have "start_vid g = of_nat k" by (simp add: start_vid_def)
  then have "unat (start_vid g) \<le> k" by (simp add: unat_of_nat_le)
  with k show ?thesis by simp
qed

text \<open>
  Claim C9. \<^verbatim>\<open>PropagateAdjoint\<close> is not safe on a tape without vertices: the start index
  \<^verbatim>\<open>vertices.size() - 1\<close> wraps to \<open>2^32 - 1\<close> and the first vertex access is out of
  bounds. On a tape with at least one vertex whose edges point into the tape, the
  propagation returns a tape: no access is out of bounds. Every recorded tape of at most
  \<open>2^32\<close> vertices is such a tape.
\<close>

theorem propagate_needs_vertex:
  "(vertices g = [] \<longrightarrow> unat (start_vid g) = 2 ^ 32 - 1 \<and> PropagateAdjoint g = Inl OutOfBounds) \<and>
   (vertices g \<noteq> [] \<and> edges_in_range g \<longrightarrow> (\<exists>g'. PropagateAdjoint g = Inr g')) \<and>
   (vertices g \<noteq> [] \<and> recorded g \<and> length (vertices g) \<le> 2 ^ 32 \<longrightarrow>
      (\<exists>g'. PropagateAdjoint g = Inr g'))"
proof -
  have safe: "\<exists>g'. PropagateAdjoint g = Inr g'" if a: "vertices g \<noteq> [] \<and> edges_in_range g"
  proof -
    let ?n = "length (vertices g)"
    let ?g0 = "g\<lparr>soEdges := resize (soEdges g) ?n ?n\<rparr>"
    have "safe_state ?n ?g0" using a by (simp add: safe_state_def resize_def edges_in_range_def)
    moreover have "unat (start_vid g) < ?n" using a start_vid_less by blast
    ultimately obtain g' where "sweep (start_vid g) ?g0 = Inr g'" using sweep_ok by blast
    then show ?thesis by (simp add: PropagateAdjoint_def start_vid_def Let_def)
  qed
  have empty: "unat (start_vid g) = 2 ^ 32 - 1 \<and> PropagateAdjoint g = Inl OutOfBounds"
    if e: "vertices g = []"
  proof
    from e show "unat (start_vid g) = 2 ^ 32 - 1"
      by (simp add: start_vid_def unsigned_minus_1_eq_mask mask_eq_exp_minus_1)
    have "(- 1 :: VertexId) \<noteq> 0" by simp
    then show "PropagateAdjoint g = Inl OutOfBounds"
      using e by (simp add: PropagateAdjoint_def start_vid_def sweep_pos visit_def)
  qed
  from safe empty recorded_in_range [of g] show ?thesis by blast
qed

theorem propagate_needs_vertex_witness:
  "vertices new_ADGraph = [] \<and> unat (start_vid new_ADGraph) = 2 ^ 32 - 1 \<and>
   PropagateAdjoint new_ADGraph = Inl OutOfBounds \<and>
   vertices tape_square \<noteq> [] \<and> edges_in_range tape_square \<and>
   recorded tape_square \<and> length (vertices tape_square) \<le> 2 ^ 32 \<and>
   PropagateAdjoint tape_square =
     Inr (tape_square\<lparr>soEdges := \<lparr>rows = 2, cols = 2, entries = Map.empty\<rparr>\<rparr>)"
proof -
  have e: "vertices new_ADGraph = []" by (simp add: new_ADGraph_def)
  have n: "vertices tape_square \<noteq> []" by (simp add: tape_defs)
  have r: "edges_in_range tape_square"
    by (simp add: tape_defs edges_in_range_def mk_ADVertex_def mk_ADEdge_def)
  have p: "PropagateAdjoint tape_square =
     Inr (tape_square\<lparr>soEdges := \<lparr>rows = 2, cols = 2, entries = Map.empty\<rparr>\<rparr>)"
    by (simp add: tape_defs mk_ADVertex_def mk_ADEdge_def empty_matrix_def propagate_defs
        upt_numeral_unfold sweep_pos sweep_zero Let_def)
  have l: "length (vertices tape_square) \<le> 2 ^ 32" by (simp add: tape_defs)
  have 0: "apply_op (Leaf 5) new_ADGraph =
             Inr (fst (NewAReal 5 new_ADGraph), snd (NewAReal 5 new_ADGraph))"
    by simp
  have 1: "recorded (snd (NewAReal 5 new_ADGraph))"
    by (rule recorded.step [OF recorded.fresh _ 0]) simp
  have 2: "apply_op (Mul \<lparr>val = 5, varId = 0\<rparr> \<lparr>val = 5, varId = 0\<rparr>) (snd (NewAReal 5 new_ADGraph)) =
             Inr (\<lparr>val = 25, varId = 1\<rparr>, tape_square)"
    by (simp add: operator_mul_def record_defs tape_defs Let_def)
  have c: "recorded tape_square"
    by (rule recorded.step [OF 1 _ 2]) (simp add: on_tape_def record_defs)
  from propagate_needs_vertex [of new_ADGraph] e
  have "unat (start_vid new_ADGraph) = 2 ^ 32 - 1" "PropagateAdjoint new_ADGraph = Inl OutOfBounds"
    by simp_all
  with e n r c l p show ?thesis by (intro conjI)
qed

section \<open>Division\<close>

lemma Inv_explicit:
  assumes "length (vertices g) < 2 ^ 32"
  shows "Inv y g = Inr (\<lparr>val = 1 / val y, varId = of_nat (length (vertices g))\<rparr>,
           g\<lparr>vertices := vertices g @ [spec_Inv_vertex y (of_nat (length (vertices g)))]\<rparr>)"
  using assms
  by (simp add: Inv_def record_defs Let_def unat_of_nat_id spec_Inv_vertex_def
      power2_eq_square power3_eq_cube)

lemma operator_mul_explicit:
  assumes "length (vertices g) < 2 ^ 32"
  shows "operator_mul x y g = Inr (\<lparr>val = val x * val y, varId = of_nat (length (vertices g))\<rparr>,
           g\<lparr>vertices := vertices g @ [spec_mul_vertex x y]\<rparr>)"
  using assms
  by (simp add: operator_mul_def record_defs Let_def unat_of_nat_id spec_mul_vertex_def)

lemma operator_mul_R_explicit:
  assumes "length (vertices g) < 2 ^ 32"
  shows "operator_mul_R x c g = Inr (\<lparr>val = val x * c, varId = of_nat (length (vertices g))\<rparr>,
           g\<lparr>vertices := vertices g @
              [spec_mul_const_vertex x c (of_nat (length (vertices g)))]\<rparr>)"
  using assms
  by (simp add: operator_mul_R_def record_defs Let_def unat_of_nat_id spec_mul_const_vertex_def)

text \<open>
  Claim C4, as the code has it. With an active divisor \<open>y\<close> (and \<open>x\<close> active or plain)
  the division is recorded as \<open>x * Inv(y)\<close>: exactly two vertices are appended, the one of
  \<open>Inv(y)\<close> and the one of the product, with the values and edges the specification gives
  for that composition. With a plain divisor \<open>c\<close>, \<open>Inv(c)\<close> is the plain number \<open>1 / c\<close>
  and only the vertex of the product \<open>x * (1 / c)\<close> is appended. (The tape has room for
  two more ids.)
\<close>

theorem division_records:
  assumes "length (vertices g) + 2 \<le> 2 ^ 32"
  shows "operator_div x y g = Inr (spec_div x y g) \<and>
         operator_R_div c y g = Inr (spec_R_div c y g) \<and>
         length (vertices (snd (spec_div x y g))) = length (vertices g) + 2 \<and>
         length (vertices (snd (spec_R_div c y g))) = length (vertices g) + 2 \<and>
         operator_div_R x c g =
           Inr (\<lparr>val = val x * (1 / c), varId = of_nat (length (vertices g))\<rparr>,
                g\<lparr>vertices := vertices g @
                   [spec_mul_const_vertex x (1 / c) (of_nat (length (vertices g)))]\<rparr>)"
proof -
  let ?n = "length (vertices g)"
  let ?g1 = "g\<lparr>vertices := vertices g @ [spec_Inv_vertex y (of_nat ?n)]\<rparr>"
  from assms have n: "?n < 2 ^ 32" and n1: "length (vertices ?g1) < 2 ^ 32" by simp_all
  have "operator_div x y g = Inr (spec_div x y g)"
    by (simp add: operator_div_def Inv_explicit [OF n] operator_mul_explicit [OF n1]
        spec_div_def Let_def)
  moreover have "operator_R_div c y g = Inr (spec_R_div c y g)"
    by (simp add: operator_R_div_def operator_R_mul_def Inv_explicit [OF n]
        operator_mul_R_explicit [OF n1] spec_R_div_def Let_def)
  moreover have "operator_div_R x c g =
           Inr (\<lparr>val = val x * (1 / c), varId = of_nat ?n\<rparr>,
                g\<lparr>vertices := vertices g @ [spec_mul_const_vertex x (1 / c) (of_nat ?n)]\<rparr>)"
    by (simp add: operator_div_R_def Inv_R_def operator_mul_R_explicit [OF n])
  ultimately show ?thesis by (simp add: spec_div_def spec_R_div_def Let_def)
qed

theorem division_records_witness:
  "length (vertices tape_leaf) + 2 \<le> 2 ^ 32 \<and>
   operator_div \<lparr>val = 6, varId = 0\<rparr> \<lparr>val = 6, varId = 0\<rparr> tape_leaf =
     Inr (spec_div \<lparr>val = 6, varId = 0\<rparr> \<lparr>val = 6, varId = 0\<rparr> tape_leaf) \<and>
   length (vertices (snd (spec_div \<lparr>val = 6, varId = 0\<rparr> \<lparr>val = 6, varId = 0\<rparr> tape_leaf))) =
     length (vertices tape_leaf) + 2"
proof -
  have l: "length (vertices tape_leaf) + 2 \<le> 2 ^ 32" by (simp add: tape_defs)
  from division_records [OF l, of "\<lparr>val = 6, varId = 0\<rparr>" "\<lparr>val = 6, varId = 0\<rparr>"] l
  show ?thesis by (intro conjI) simp_all
qed

text \<open>With a plain divisor a single vertex is appended: \<open>x / 2\<close> at \<open>x = 6\<close> on the tape
  that holds only \<open>x\<close>.\<close>

theorem division_by_plain_number:
  "operator_div_R \<lparr>val = 6, varId = 0\<rparr> 2 tape_leaf =
     Inr (\<lparr>val = 3, varId = 1\<rparr>,
          tape_leaf\<lparr>vertices := [mk_ADVertex 0,
              \<lparr>e1 = \<lparr>to = 0, ew = 1 / 2\<rparr>, e2 = \<lparr>to = 1, ew = 0\<rparr>, w = 0, soW = 0\<rparr>]\<rparr>) \<and>
   length (vertices tape_leaf) = 1"
  by (simp add: operator_div_R_def operator_mul_R_def Inv_R_def record_defs tape_defs Let_def)

section \<open>What the sweep visits\<close>

lemma set_map_filter_conv:
  "set (List.map_filter f xs) = {y. \<exists>x \<in> set xs. f x = Some y}"
  by (induction xs) (auto split: option.splits)

lemma InnerIterator_set:
  assumes "InnerIterator m c = Inr its"
  shows "set its = {(r, x). r < rows m \<and> entries m (r, c) = Some x}"
    and "map fst its = filter (\<lambda>r. entries m (r, c) \<noteq> None) [0..<rows m]"
proof -
  from assms
  have its: "its = List.map_filter (\<lambda>r. map_option (Pair r) (entries m (r, c))) [0..<rows m]"
    by (simp add: InnerIterator_def split: if_splits)
  show "set its = {(r, x). r < rows m \<and> entries m (r, c) = Some x}"
    unfolding its by (auto simp: set_map_filter_conv)
  show "map fst its = filter (\<lambda>r. entries m (r, c) \<noteq> None) [0..<rows m]"
    unfolding its by (auto simp: List.map_filter_def intro!: map_idI)
qed

text \<open>
  What the iteration at a vertex \<open>v\<close> yields: column \<open>v\<close> of the upper-triangular storage,
  that is, exactly the stored coefficients \<open>(i, v)\<close>, each once, by increasing \<open>i\<close>, all with
  \<open>i \<le> v\<close>, and no coefficient \<open>(v, j)\<close> with \<open>j > v\<close>.
\<close>

lemma iteration_is_column:
  assumes "unat vid < cols (soEdges g)" "in_dims (soEdges g)" "upper_triangular (soEdges g)"
  shows "\<exists>its. InnerIterator (soEdges g) (unat vid) = Inr its \<and>
           set its = {(i, x). entries (soEdges g) (i, unat vid) = Some x} \<and>
           (\<forall>it \<in> set its. fst it \<le> unat vid) \<and>
           sorted (map fst its) \<and> distinct (map fst its) \<and>
           (\<forall>j x. unat vid < j \<longrightarrow> (j, x) \<notin> set its) \<and>
           (unat vid < length (vertices g) \<and> to (e1 (vertices g ! unat vid)) \<noteq> vid \<longrightarrow>
              visit vid g =
                bindE (push_entries vid (e1 (vertices g ! unat vid)) (e2 (vertices g ! unat vid))
                         its g)
                  (create_and_adjoint vid))"
proof -
  let ?m = "soEdges g"
  from assms(1) obtain its where it: "InnerIterator ?m (unat vid) = Inr its"
    by (simp add: InnerIterator_def)
  note s = InnerIterator_set [OF it]
  have 1: "set its = {(i, x). entries ?m (i, unat vid) = Some x}"
  proof -
    have "i < rows ?m" if "entries ?m (i, unat vid) = Some x" for i x
      using in_dimsD [OF assms(2) that] by simp
    then show ?thesis unfolding s(1) by auto
  qed
  have 2: "\<forall>it \<in> set its. fst it \<le> unat vid"
  proof
    fix it assume "it \<in> set its"
    then have "entries ?m (fst it, unat vid) = Some (snd it)" unfolding 1 by auto
    from upper_triangularD [OF assms(3) this] show "fst it \<le> unat vid" .
  qed
  have 3: "sorted (map fst its)" "distinct (map fst its)"
    unfolding s(2) by (simp_all add: sorted_wrt_filter)
  from 2 have 4: "\<forall>j x. unat vid < j \<longrightarrow> (j, x) \<notin> set its" by fastforce
  have 5: "unat vid < length (vertices g) \<and> to (e1 (vertices g ! unat vid)) \<noteq> vid \<longrightarrow>
      visit vid g =
        bindE (push_entries vid (e1 (vertices g ! unat vid)) (e2 (vertices g ! unat vid)) its g)
          (create_and_adjoint vid)"
    using it by (simp add: visit_def Let_def)
  from it 1 2 3 4 5 show ?thesis by blast
qed

text \<open>
  Claim C2 asks that the step of a non-leaf vertex \<open>v\<close> yields and pushes the stored
  coefficients \<open>(i, v)\<close> with \<open>i \<le> v\<close> and also the stored coefficients \<open>(v, j)\<close> with
  \<open>j \<ge> v\<close>. The code walks column \<open>v\<close> only, and it skips leaves before it walks anything.
  For \<open>f = (x * 2) * y\<close> with the leaf \<open>y\<close> created after \<open>a = x * 2\<close> (ids \<open>x = 0\<close>,
  \<open>a = 1\<close>, \<open>y = 2\<close>, \<open>f = 3\<close>) the coefficient \<open>(a, y) = (1, 2)\<close> is stored in column 2:
  vertex 2 is a leaf and is skipped, and at vertex 1 the iteration yields nothing. The
  coefficient is never pushed through the edge from \<open>a\<close> to \<open>x\<close>, and the propagation ends
  with the Hessian entry \<open>(x, y) = 0\<close>, where the derivative is 2; the gradient is right.
  The same function with both leaves created first gives 2.
\<close>

theorem late_leaf_entry_never_pushed:
  "(\<exists>x y g. late_leaf_scenario = Inr (x, y, g) \<and>
      GetAdjoint x g = Inr 10 \<and> GetAdjoint y g = Inr 6 \<and>
      entries (soEdges g) (1, 2) = Some 1 \<and> hessian_of x y g = Inr 0) \<and>
   (\<exists>x y g. early_leaf_scenario = Inr (x, y, g) \<and>
      GetAdjoint x g = Inr 10 \<and> GetAdjoint y g = Inr 6 \<and> hessian_of x y g = Inr 2) \<and>
   late_leaf_record = Inr (\<lparr>val = 3, varId = 0\<rparr>, \<lparr>val = 5, varId = 2\<rparr>, tape_late) \<and>
   sweep_to 1 (start_vid tape_late) (tape_late\<lparr>soEdges := resize (soEdges tape_late) 4 4\<rparr>) =
     Inr tape_late_at_1 \<and>
   PropagateAdjoint tape_late = bindE (visit 1 tape_late_at_1) (sweep 0) \<and>
   to (e1 (vertices tape_late_at_1 ! 2)) = 2 \<and>
   to (e1 (vertices tape_late_at_1 ! 1)) \<noteq> 1 \<and>
   entries (soEdges tape_late_at_1) (1, 2) = Some 1 \<and>
   InnerIterator (soEdges tape_late_at_1) 1 = Inr []"
proof -
  have 1: "\<exists>x y g. late_leaf_scenario = Inr (x, y, g) \<and>
      GetAdjoint x g = Inr 10 \<and> GetAdjoint y g = Inr 6 \<and>
      entries (soEdges g) (1, 2) = Some 1 \<and> hessian_of x y g = Inr 0"
    by (simp add: late_leaf_scenario_def late_leaf_record_def operator_mul_R_def
        operator_mul_def record_defs
        propagate_defs sweep_pos sweep_zero GetAdjoint_def GetAdjoint2_def hessian_of_def Let_def)
  have 2: "\<exists>x y g. early_leaf_scenario = Inr (x, y, g) \<and>
      GetAdjoint x g = Inr 10 \<and> GetAdjoint y g = Inr 6 \<and> hessian_of x y g = Inr 2"
    by (simp add: early_leaf_scenario_def operator_mul_R_def operator_mul_def record_defs
        propagate_defs sweep_pos sweep_zero GetAdjoint_def GetAdjoint2_def hessian_of_def Let_def)
  have 0: "late_leaf_record = Inr (\<lparr>val = 3, varId = 0\<rparr>, \<lparr>val = 5, varId = 2\<rparr>, tape_late)"
    by (simp add: late_leaf_record_def operator_mul_R_def operator_mul_def record_defs
        tape_defs Let_def)
  have s: "start_vid tape_late = 3" by (simp add: start_vid_def tape_defs)
  have 3: "sweep_to 1 (start_vid tape_late) (tape_late\<lparr>soEdges := resize (soEdges tape_late) 4 4\<rparr>) =
     Inr tape_late_at_1"
    unfolding s
    by (simp add: sweep_to_step sweep_to_stop tape_defs mk_ADVertex_def mk_ADEdge_def
        empty_matrix_def resize_def visit_def create_and_adjoint_def InnerIterator_def
        List.map_filter_def upt_numeral_unfold push_entry_def PushEdge_def creating_def
        adjoint_def add_w_def AddSoEdge_def coeffRef_def coeff_def Let_def)
  have l: "length (vertices tape_late) = 4" by (simp add: tape_defs)
  have "PropagateAdjoint tape_late =
      bindE (sweep_to 1 (start_vid tape_late) (tape_late\<lparr>soEdges := resize (soEdges tape_late) 4 4\<rparr>))
        (sweep 1)"
    using sweep_split [of 1 3 "tape_late\<lparr>soEdges := resize (soEdges tape_late) 4 4\<rparr>"]
    by (simp add: PropagateAdjoint_def Let_def l s) (simp add: start_vid_def l)
  then have 4: "PropagateAdjoint tape_late = bindE (visit 1 tape_late_at_1) (sweep 0)"
    unfolding 3 by (simp add: sweep_pos)
  have 5: "to (e1 (vertices tape_late_at_1 ! 2)) = 2" "to (e1 (vertices tape_late_at_1 ! 1)) \<noteq> 1"
    "entries (soEdges tape_late_at_1) (1, 2) = Some 1"
    by (simp_all add: tape_defs)
  have 6: "InnerIterator (soEdges tape_late_at_1) 1 = Inr []"
    by (simp add: tape_defs InnerIterator_def upt_numeral_unfold)
  from 1 2 0 3 4 5 6 show ?thesis by (intro conjI)
qed

section \<open>Seeding second-order weights\<close>

lemma AddSoEdge_coeff:
  assumes "AddSoEdge i j x g = Inr g'"
  shows "coeff (soEdges g') a b =
           coeff (soEdges g) a b + (if (a, b) = (unat (min i j), unat (max i j)) then x else 0)"
  using assms by (auto simp: AddSoEdge_Inr coeff_def)

lemma push_entries_append:
  "push_entries vid f1 f2 (xs @ ys) g =
     bindE (push_entries vid f1 f2 xs g) (push_entries vid f1 f2 ys)"
proof (induction xs arbitrary: g)
  case Nil
  show ?case by simp
next
  case (Cons it xs)
  show ?case by (cases "push_entry vid f1 f2 it g") (simp_all add: Cons.IH)
qed

lemma map_filter_append:
  "List.map_filter f (xs @ ys) = List.map_filter f xs @ List.map_filter f ys"
  by (simp add: List.map_filter_def)

lemma map_filter_none: "(\<And>x. x \<in> set xs \<Longrightarrow> f x = None) \<Longrightarrow> List.map_filter f xs = []"
  by (induction xs) simp_all

lemma diagonal_is_last:
  assumes "InnerIterator m c = Inr its" "upper_triangular m" "entries m (c, c) = Some s"
    "c < rows m"
  shows "\<exists>before. its = before @ [(c, s)] \<and> (\<forall>it \<in> set before. fst it < c \<and> fst it < rows m)"
proof -
  let ?f = "\<lambda>r. map_option (Pair r) (entries m (r, c))"
  from assms(1) have its: "its = List.map_filter ?f [0..<rows m]"
    by (simp add: InnerIterator_def split: if_splits)
  from assms(4) have "[0..<rows m] = [0..<c] @ [c] @ [Suc c..<rows m]"
    by (metis append_Cons append_Nil less_imp_le_nat upt_add_eq_append upt_conv_Cons le_add_diff_inverse zero_le)
  moreover have "List.map_filter ?f [Suc c..<rows m] = []"
  proof (rule map_filter_none)
    fix r assume "r \<in> set [Suc c..<rows m]"
    then have "c < r" by simp
    have "entries m (r, c) = None"
    proof (cases "entries m (r, c)")
      case (Some x)
      from upper_triangularD [OF assms(2) Some] \<open>c < r\<close> show ?thesis by simp
    qed simp
    then show "?f r = None" by simp
  qed
  ultimately have "its = List.map_filter ?f [0..<c] @ [(c, s)]"
    using assms(3) by (simp add: its map_filter_append)
  moreover have "fst it < c \<and> fst it < rows m" if "it \<in> set (List.map_filter ?f [0..<c])" for it
    using that assms(4) by (auto simp: set_map_filter_conv)
  ultimately show ?thesis by blast
qed


lemma set_w_edges:
  "map e1 (xs[i := (xs ! i)\<lparr>w := x\<rparr>]) = map e1 xs \<and>
   map e2 (xs[i := (xs ! i)\<lparr>w := x\<rparr>]) = map e2 xs"
proof (cases "i < length xs")
  case True
  then show ?thesis by (simp add: map_update list_update_same_conv)
next
  case False
  then have "length xs \<le> i" by simp
  then have "xs[i := (xs ! i)\<lparr>w := x\<rparr>] = xs" by (rule list_update_beyond)
  then show ?thesis by simp
qed

lemma add_w_edges:
  "add_w i x g = Inr g' \<Longrightarrow>
     map e1 (vertices g') = map e1 (vertices g) \<and> map e2 (vertices g') = map e2 (vertices g)"
  using set_w_edges [of "vertices g" "unat i"]
  by (auto simp: add_w_def split: if_splits)

lemma adjoint_edges:
  assumes "adjoint vid vx a g = Inr g'"
  shows "map e1 (vertices g') = map e1 (vertices g) \<and> map e2 (vertices g') = map e2 (vertices g)"
proof -
  let ?g0 = "g\<lparr>vertices := (vertices g)[unat vid := (vertices g ! unat vid)\<lparr>w := 0\<rparr>]\<rparr>"
  have 0: "map e1 (vertices ?g0) = map e1 (vertices g) \<and> map e2 (vertices ?g0) = map e2 (vertices g)"
    using set_w_edges [of "vertices g" "unat vid" 0] by simp
  from assms obtain g1 where 1: "add_w (to (e1 vx)) (a * ew (e1 vx)) ?g0 = Inr g1"
    and 2: "(if to (e2 vx) \<noteq> vid then add_w (to (e2 vx)) (a * ew (e2 vx)) g1 else Inr g1) = Inr g'"
    by (auto simp: adjoint_def Let_def bindE_eq_Inr)
  from add_w_edges [OF 1] 0
  have e: "map e1 (vertices g1) = map e1 (vertices g) \<and> map e2 (vertices g1) = map e2 (vertices g)"
    by simp
  show ?thesis
  proof (cases "to (e2 vx) \<noteq> vid")
    case True
    with 2 have "add_w (to (e2 vx)) (a * ew (e2 vx)) g1 = Inr g'" by simp
    from add_w_edges [OF this] e show ?thesis by simp
  next
    case False
    with 2 e show ?thesis by simp
  qed
qed

lemma visit_edges:
  assumes "visit vid g = Inr g'"
  shows "map e1 (vertices g') = map e1 (vertices g) \<and> map e2 (vertices g') = map e2 (vertices g)"
proof (cases "unat vid < length (vertices g) \<and> to (e1 (vertices g ! unat vid)) \<noteq> vid")
  case False
  with assms show ?thesis by (auto simp: visit_def split: if_splits)
next
  case True
  with assms obtain its g1 where
    p: "push_entries vid (e1 (vertices g ! unat vid)) (e2 (vertices g ! unat vid)) its g = Inr g1"
    and c: "create_and_adjoint vid g1 = Inr g'"
    by (auto simp: visit_def Let_def bindE_eq_Inr)
  note v1 = push_entries_vertices [OF p]
  show ?thesis
  proof (cases "w (vertices g1 ! unat vid) = 0")
    case True
    with c v1 show ?thesis by (simp add: create_and_adjoint_def)
  next
    case False
    with c obtain g2 where cr: "creating vid (vertices g1 ! unat vid) (w (vertices g1 ! unat vid)) g1 = Inr g2"
      and ad: "adjoint vid (vertices g2 ! unat vid) (w (vertices g1 ! unat vid)) g2 = Inr g'"
      by (auto simp: create_and_adjoint_def Let_def bindE_eq_Inr)
    from adjoint_edges [OF ad] creating_vertices [OF cr] v1 show ?thesis by simp
  qed
qed

lemma sweep_to_ok:
  "safe_state n g \<Longrightarrow> unat vid < n \<Longrightarrow>
     \<exists>g'. sweep_to lo vid g = Inr g' \<and> safe_state n g' \<and>
          map e1 (vertices g') = map e1 (vertices g) \<and> map e2 (vertices g') = map e2 (vertices g) \<and>
          (upper_triangular (soEdges g) \<longrightarrow> upper_triangular (soEdges g'))"
proof (induction lo vid g rule: sweep_to.induct)
  case (1 lo vid g)
  show ?case
  proof (cases "lo < vid")
    case False
    with "1.prems" show ?thesis by (simp add: sweep_to_stop)
  next
    case True
    from visit_ok [OF "1.prems"] obtain g1 where v: "visit vid g = Inr g1" "safe_state n g1"
      by blast
    from True have "vid \<noteq> 0" by (metis word_not_simps(1))
    then have "unat (vid - 1) < unat vid"
      by (simp add: unat_minus_one unat_gt_0 word_greater_zero_iff)
    with "1.prems"(2) have "unat (vid - 1) < n" by simp
    from "1.IH" [OF True v(2) this] obtain g' where
      s: "sweep_to lo (vid - 1) g1 = Inr g'" "safe_state n g'"
        "map e1 (vertices g') = map e1 (vertices g1)" "map e2 (vertices g') = map e2 (vertices g1)"
        "upper_triangular (soEdges g1) \<longrightarrow> upper_triangular (soEdges g')"
      by blast
    from v(1) s(1) True have "sweep_to lo vid g = Inr g'" by (simp add: sweep_to_step)
    moreover note visit_edges [OF v(1)] visit_upper [OF v(1)]
    ultimately show ?thesis using s by auto
  qed
qed

lemma push_entry_diagonal:
  "push_entry vid f1 f2 (unat vid, s) g =
     bindE (AddSoEdge (to f1) (to f1) (ew f1 * ew f1 * s) g) (\<lambda>g1.
       if to f2 \<noteq> vid then
         bindE (AddSoEdge (to f2) (to f2) (ew f2 * ew f2 * s) g1) (\<lambda>g2.
           AddSoEdge (to f1) (to f2)
             (if to f1 = to f2 then 2 * ew f1 * ew f2 * s else ew f1 * ew f2 * s) g2)
       else Inr g1)"
  by (simp add: push_entry_def mk_ADEdge_def Let_def cong: if_cong)

lemma push_entry_diagonal_coeff:
  assumes "push_entry vid f1 f2 (unat vid, s) g = Inr g'"
  shows "coeff (soEdges g') i j = coeff (soEdges g) i j + diagonal_push f1 f2 vid s i j"
proof -
  from assms obtain g1 where 1: "AddSoEdge (to f1) (to f1) (ew f1 * ew f1 * s) g = Inr g1"
    and r: "(if to f2 \<noteq> vid then
         bindE (AddSoEdge (to f2) (to f2) (ew f2 * ew f2 * s) g1) (\<lambda>g2.
           AddSoEdge (to f1) (to f2)
             (if to f1 = to f2 then 2 * ew f1 * ew f2 * s else ew f1 * ew f2 * s) g2)
       else Inr g1) = Inr g'"
    unfolding push_entry_diagonal by (auto simp: bindE_eq_Inr)
  note c1 = AddSoEdge_coeff [OF 1, of i j]
  show ?thesis
  proof (cases "to f2 \<noteq> vid")
    case False
    with r c1 show ?thesis by (simp add: diagonal_push_def)
  next
    case True
    with r obtain g2 where 2: "AddSoEdge (to f2) (to f2) (ew f2 * ew f2 * s) g1 = Inr g2"
      and 3: "AddSoEdge (to f1) (to f2)
             (if to f1 = to f2 then 2 * ew f1 * ew f2 * s else ew f1 * ew f2 * s) g2 = Inr g'"
      by (auto simp: bindE_eq_Inr)
    from AddSoEdge_coeff [OF 2, of i j] AddSoEdge_coeff [OF 3, of i j] c1 True
    show ?thesis by (simp add: diagonal_push_def)
  qed
qed

text \<open>
  Claim C1, as the code has it. \<^verbatim>\<open>PropagateAdjoint\<close> begins by resizing the accumulator,
  which empties it: what was stored before the call has no effect on the result. On a
  tape whose edges are in range the sweep reaches every vertex \<open>v\<close> between its start and
  1, on a tape \<open>gv\<close>, and goes on with the visit of \<open>v\<close>. If \<open>v\<close> is not a leaf and a
  diagonal coefficient \<open>(v, v)\<close> with weight \<open>s\<close> is stored on \<open>gv\<close>, the iteration yields it,
  last in its column, and the visit pushes it through the first-order edges \<open>e1\<close>, \<open>e2\<close> of
  \<open>v\<close>: every slot of the accumulator receives what the diagonal push gives it, that is
  \<open>e1.w\<^sup>2 s\<close> at \<open>(e1.to, e1.to)\<close> and, when \<open>e2\<close> exists, \<open>e2.w\<^sup>2 s\<close> at \<open>(e2.to, e2.to)\<close> and
  \<open>e1.w e2.w s\<close>, doubled when both edges have the same target, at \<open>(e1.to, e2.to)\<close>; then
  the visit creates and propagates.
\<close>

theorem reset_then_diagonal_push:
  "PropagateAdjoint (g\<lparr>soEdges := m\<rparr>) = PropagateAdjoint g \<and>
   (edges_in_range g \<and> vertices g \<noteq> [] \<and> vid \<noteq> 0 \<and> vid \<le> start_vid g \<longrightarrow>
     (\<exists>gv. sweep_to vid (start_vid g)
              (g\<lparr>soEdges := resize (soEdges g) (length (vertices g)) (length (vertices g))\<rparr>) = Inr gv \<and>
           PropagateAdjoint g = bindE (visit vid gv) (sweep (vid - 1)) \<and>
           (to (e1 (vertices g ! unat vid)) \<noteq> vid \<longrightarrow>
             (\<forall>s. entries (soEdges gv) (unat vid, unat vid) = Some s \<longrightarrow>
               (\<exists>before ga gb.
                  InnerIterator (soEdges gv) (unat vid) = Inr (before @ [(unat vid, s)]) \<and>
                  push_entries vid (e1 (vertices g ! unat vid)) (e2 (vertices g ! unat vid))
                    before gv = Inr ga \<and>
                  push_entry vid (e1 (vertices g ! unat vid)) (e2 (vertices g ! unat vid))
                    (unat vid, s) ga = Inr gb \<and>
                  (\<forall>i j. coeff (soEdges gb) i j =
                     coeff (soEdges ga) i j +
                     diagonal_push (e1 (vertices g ! unat vid)) (e2 (vertices g ! unat vid))
                       vid s i j) \<and>
                  visit vid gv = create_and_adjoint vid gb)))))"
proof (intro conjI impI)
  show "PropagateAdjoint (g\<lparr>soEdges := m\<rparr>) = PropagateAdjoint g"
    by (simp add: PropagateAdjoint_def start_vid_def resize_def)
next
  assume a: "edges_in_range g \<and> vertices g \<noteq> [] \<and> vid \<noteq> 0 \<and> vid \<le> start_vid g"
  let ?n = "length (vertices g)"
  let ?g0 = "g\<lparr>soEdges := resize (soEdges g) ?n ?n\<rparr>"
  let ?f1 = "e1 (vertices g ! unat vid)" and ?f2 = "e2 (vertices g ! unat vid)"
  have safe: "safe_state ?n ?g0"
    using a by (simp add: safe_state_def resize_def edges_in_range_def)
  have up: "upper_triangular (soEdges ?g0)" by (simp add: resize_def upper_triangular_def)
  have st: "unat (start_vid g) < ?n" using a start_vid_less by blast
  from a have "unat vid \<le> unat (start_vid g)" by (simp add: word_le_nat_alt)
  with st have v: "unat vid < ?n" by simp
  from sweep_to_ok [OF safe st, of vid] up obtain gv where
    gv: "sweep_to vid (start_vid g) ?g0 = Inr gv" and sgv: "safe_state ?n gv"
    and m1: "map e1 (vertices gv) = map e1 (vertices g)"
    and m2: "map e2 (vertices gv) = map e2 (vertices g)"
    and ugv: "upper_triangular (soEdges gv)"
    by auto
  from sgv have len: "length (vertices gv) = ?n" and r: "rows (soEdges gv) = ?n"
    and c: "cols (soEdges gv) = ?n"
    by (simp_all add: safe_state_def)
  have f1: "e1 (vertices gv ! unat vid) = ?f1"
    using arg_cong [OF m1, of "\<lambda>xs. xs ! unat vid"] v len by simp
  have f2: "e2 (vertices gv ! unat vid) = ?f2"
    using arg_cong [OF m2, of "\<lambda>xs. xs ! unat vid"] v len by simp
  have "PropagateAdjoint g = sweep (start_vid g) ?g0"
    by (simp add: PropagateAdjoint_def start_vid_def Let_def)
  also have "\<dots> = bindE (sweep_to vid (start_vid g) ?g0) (sweep vid)"
    using a by (intro sweep_split) simp
  also have "\<dots> = bindE (visit vid gv) (sweep (vid - 1))"
    using a by (simp add: gv sweep_pos)
  finally have p: "PropagateAdjoint g = bindE (visit vid gv) (sweep (vid - 1))" .
  have d: "\<exists>before ga gb.
      InnerIterator (soEdges gv) (unat vid) = Inr (before @ [(unat vid, s)]) \<and>
      push_entries vid ?f1 ?f2 before gv = Inr ga \<and>
      push_entry vid ?f1 ?f2 (unat vid, s) ga = Inr gb \<and>
      (\<forall>i j. coeff (soEdges gb) i j = coeff (soEdges ga) i j + diagonal_push ?f1 ?f2 vid s i j) \<and>
      visit vid gv = create_and_adjoint vid gb"
    if nl: "to ?f1 \<noteq> vid" and s: "entries (soEdges gv) (unat vid, unat vid) = Some s" for s
  proof -
    from v c obtain its where it: "InnerIterator (soEdges gv) (unat vid) = Inr its"
      by (simp add: InnerIterator_def)
    from diagonal_is_last [OF it ugv s] v r obtain before where
      its: "its = before @ [(unat vid, s)]" and b: "\<forall>it \<in> set before. fst it < rows (soEdges gv)"
      by auto
    from v have "vertices g ! unat vid \<in> set (vertices g)" by simp
    with a have t: "unat (to ?f1) < rows (soEdges gv)" "unat (to ?f2) < rows (soEdges gv)"
      by (auto simp: edges_in_range_def r)
    from c r have cr: "cols (soEdges gv) = rows (soEdges gv)" by simp
    from push_entries_ok [OF t b cr] obtain ga where
      ga: "push_entries vid ?f1 ?f2 before gv = Inr ga" by blast
    note da = push_entries_dims [OF ga]
    from push_entry_ok [of ?f1 ga ?f2 "(unat vid, s)" vid] t da cr v r obtain gb where
      gb: "push_entry vid ?f1 ?f2 (unat vid, s) ga = Inr gb" by auto
    have "visit vid gv = create_and_adjoint vid gb"
      using v len nl it its ga gb by (simp add: visit_def f1 f2 push_entries_append)
    with it its ga gb push_entry_diagonal_coeff [OF gb] show ?thesis by blast
  qed
  from gv p d
  show "\<exists>gv. sweep_to vid (start_vid g) ?g0 = Inr gv \<and>
           PropagateAdjoint g = bindE (visit vid gv) (sweep (vid - 1)) \<and>
           (to ?f1 \<noteq> vid \<longrightarrow>
             (\<forall>s. entries (soEdges gv) (unat vid, unat vid) = Some s \<longrightarrow>
               (\<exists>before ga gb.
                  InnerIterator (soEdges gv) (unat vid) = Inr (before @ [(unat vid, s)]) \<and>
                  push_entries vid ?f1 ?f2 before gv = Inr ga \<and>
                  push_entry vid ?f1 ?f2 (unat vid, s) ga = Inr gb \<and>
                  (\<forall>i j. coeff (soEdges gb) i j =
                     coeff (soEdges ga) i j + diagonal_push ?f1 ?f2 vid s i j) \<and>
                  visit vid gv = create_and_adjoint vid gb)))"
    by blast
qed

theorem reset_then_diagonal_push_witness:
  "exp_scenario = Inr tape_exp \<and>
   edges_in_range tape_exp \<and> vertices tape_exp \<noteq> [] \<and> (1 :: VertexId) \<noteq> 0 \<and>
   1 \<le> start_vid tape_exp \<and>
   sweep_to 1 (start_vid tape_exp) (tape_exp\<lparr>soEdges := resize (soEdges tape_exp) 3 3\<rparr>) =
     Inr tape_exp_at_1 \<and>
   PropagateAdjoint tape_exp = bindE (visit 1 tape_exp_at_1) (sweep (1 - 1)) \<and>
   to (e1 (vertices tape_exp ! unat (1 :: VertexId))) \<noteq> 1 \<and>
   entries (soEdges tape_exp_at_1) (unat (1 :: VertexId), unat (1 :: VertexId)) = Some 1 \<and>
   InnerIterator (soEdges tape_exp_at_1) (unat (1 :: VertexId)) = Inr [(1, 1)] \<and>
   diagonal_push (e1 (vertices tape_exp ! unat (1 :: VertexId)))
     (e2 (vertices tape_exp ! unat (1 :: VertexId))) 1 1 0 0 = 9 \<and>
   hessian_of \<lparr>val = 0, varId = 0\<rparr> \<lparr>val = 0, varId = 0\<rparr>
     (tape_exp_at_1\<lparr>soEdges := \<lparr>rows = 3, cols = 3, entries = [(1, 1) \<mapsto> 1, (0, 0) \<mapsto> 9]\<rparr>\<rparr>) = Inr 9"
proof -
  have sc: "exp_scenario = Inr tape_exp"
    by (simp add: exp_scenario_def operator_mul_R_def exp_A_def record_defs tape_defs Let_def)
  have r: "edges_in_range tape_exp"
    by (simp add: tape_defs edges_in_range_def mk_ADVertex_def mk_ADEdge_def)
  have n: "vertices tape_exp \<noteq> []" by (simp add: tape_defs)
  have s: "start_vid tape_exp = 2" by (simp add: start_vid_def tape_defs)
  have l: "length (vertices tape_exp) = 3" by (simp add: tape_defs)
  have le: "1 \<le> start_vid tape_exp" unfolding s by simp
  have st: "sweep_to 1 (start_vid tape_exp) (tape_exp\<lparr>soEdges := resize (soEdges tape_exp) 3 3\<rparr>) =
     Inr tape_exp_at_1"
    unfolding s
    by (simp add: sweep_to_step sweep_to_stop tape_defs mk_ADVertex_def mk_ADEdge_def
        empty_matrix_def resize_def visit_def create_and_adjoint_def InnerIterator_def
        List.map_filter_def upt_numeral_unfold push_entry_def PushEdge_def creating_def
        adjoint_def add_w_def AddSoEdge_def coeffRef_def coeff_def Let_def)
  have nl: "to (e1 (vertices tape_exp ! unat (1 :: VertexId))) \<noteq> 1" by (simp add: tape_defs)
  have e: "entries (soEdges tape_exp_at_1) (unat (1 :: VertexId), unat (1 :: VertexId)) = Some 1"
    by (simp add: tape_defs)
  have i: "InnerIterator (soEdges tape_exp_at_1) (unat (1 :: VertexId)) = Inr [(1, 1)]"
    by (simp add: tape_defs InnerIterator_def upt_numeral_unfold)
  have d: "diagonal_push (e1 (vertices tape_exp ! unat (1 :: VertexId)))
     (e2 (vertices tape_exp ! unat (1 :: VertexId))) 1 1 0 0 = 9"
    by (simp add: diagonal_push_def tape_defs)
  have h: "hessian_of \<lparr>val = 0, varId = 0\<rparr> \<lparr>val = 0, varId = 0\<rparr>
     (tape_exp_at_1\<lparr>soEdges := \<lparr>rows = 3, cols = 3, entries = [(1, 1) \<mapsto> 1, (0, 0) \<mapsto> 9]\<rparr>\<rparr>) = Inr 9"
    by (simp add: hessian_of_def GetAdjoint2_def coeffRef_def coeff_def Let_def)
  from reset_then_diagonal_push [where g = tape_exp and m = "soEdges tape_exp" and vid = 1]
    r n le
  obtain gv where
    "sweep_to 1 (start_vid tape_exp)
       (tape_exp\<lparr>soEdges := resize (soEdges tape_exp) (length (vertices tape_exp))
          (length (vertices tape_exp))\<rparr>) = Inr gv"
    "PropagateAdjoint tape_exp = bindE (visit 1 gv) (sweep (1 - 1))"
    by auto
  with st l have p: "PropagateAdjoint tape_exp = bindE (visit 1 tape_exp_at_1) (sweep (1 - 1))"
    by simp
  from sc r n le st p nl e i d h show ?thesis by (intro conjI) simp_all
qed

text \<open>
  A seed stored before the call is discarded: in the seeding of \<open>f = x * 3\<close> with weight 1
  at \<open>(f, f)\<close>, the propagation ends with an accumulator that stores nothing, so the
  coefficient at \<open>(x, x)\<close> is 0 and not \<open>3\<^sup>2\<close>.
\<close>

theorem seed_is_discarded:
  "seed_scenario = Inr tape_seeded \<and>
   entries (soEdges tape_seeded) (1, 1) = Some 1 \<and>
   to (e1 (vertices tape_seeded ! 1)) = 0 \<and> ew (e1 (vertices tape_seeded ! 1)) = 3 \<and>
   PropagateAdjoint tape_seeded =
     Inr (tape_seeded\<lparr>soEdges := resize (soEdges tape_seeded) 2 2\<rparr>) \<and>
   entries (resize (soEdges tape_seeded) 2 2) (0, 0) = None \<and>
   hessian_of \<lparr>val = 1, varId = 0\<rparr> \<lparr>val = 1, varId = 0\<rparr>
     (tape_seeded\<lparr>soEdges := resize (soEdges tape_seeded) 2 2\<rparr>) = Inr 0"
proof -
  have 1: "seed_scenario = Inr tape_seeded"
    by (simp add: seed_scenario_def operator_mul_R_def record_defs resize_def tape_defs
        AddSoEdge_def coeffRef_def coeff_def Let_def)
  have 2: "entries (soEdges tape_seeded) (1, 1) = Some 1"
    "to (e1 (vertices tape_seeded ! 1)) = 0" "ew (e1 (vertices tape_seeded ! 1)) = 3"
    by (simp_all add: tape_defs)
  have 3: "PropagateAdjoint tape_seeded =
     Inr (tape_seeded\<lparr>soEdges := resize (soEdges tape_seeded) 2 2\<rparr>)"
    by (simp add: tape_defs mk_ADVertex_def mk_ADEdge_def propagate_defs upt_numeral_unfold
        sweep_pos sweep_zero Let_def)
  have 4: "entries (resize (soEdges tape_seeded) 2 2) (0, 0) = None"
    by (simp add: resize_def)
  have 5: "hessian_of \<lparr>val = 1, varId = 0\<rparr> \<lparr>val = 1, varId = 0\<rparr>
     (tape_seeded\<lparr>soEdges := resize (soEdges tape_seeded) 2 2\<rparr>) = Inr 0"
    by (simp add: hessian_of_def GetAdjoint2_def resize_def coeffRef_def coeff_def Let_def)
  from 1 2 3 4 5 show ?thesis by (intro conjI)
qed

end
